theory Spec2Isabelle
  imports Main "HOL-Library.Sublist" "HOL-Library.AList" "HOL-Library.Word"
begin

section \<open>Python strings\<close>

text \<open>
  A Python \<open>str\<close> is a sequence of code points. The model writes it as a \<open>string\<close>,
  one \<open>char\<close> for each code point, so it covers the text whose code points are below 256.
  The functions of this section are the methods of \<open>str\<close> that \<open>mht2html.py\<close> calls.
\<close>

text \<open>\<open>str.isspace\<close> on one code point below 256: TAB to CR, FS to US, space, NEL, NBSP.\<close>

definition isspace :: "char \<Rightarrow> bool" where
  "isspace c =
     (let n = (of_char c :: nat)
      in (9 \<le> n \<and> n \<le> 13) \<or> (28 \<le> n \<and> n \<le> 32) \<or> n = 133 \<or> n = 160)"

text \<open>\<open>s.strip()\<close>: the whitespace at both ends is removed.\<close>

definition strip :: "string \<Rightarrow> string" where
  "strip s = rev (dropWhile isspace (rev (dropWhile isspace s)))"

text \<open>\<open>s.lower()\<close>: below 256 the upper-case letters are A to Z and the Latin-1 capitals
  (192 to 222 without the multiplication sign 215), each 32 below its lower-case letter.\<close>

definition lower_char :: "char \<Rightarrow> char" where
  "lower_char c =
     (let n = (of_char c :: nat)
      in if (65 \<le> n \<and> n \<le> 90) \<or> (192 \<le> n \<and> n \<le> 222 \<and> n \<noteq> 215)
         then char_of (n + 32) else c)"

definition lower :: "string \<Rightarrow> string" where
  "lower s = map lower_char s"

text \<open>\<open>s.split(c)\<close> for a separator of one character. The result is never the empty
  list: \<open>split_segments\<close> returns its first segment and the segments after it.\<close>

fun split_segments :: "char \<Rightarrow> string \<Rightarrow> string \<times> string list" where
  "split_segments c [] = ([], [])"
| "split_segments c (x # xs) =
     (case split_segments c xs of
        (seg, segs) \<Rightarrow> if x = c then ([], seg # segs) else (x # seg, segs))"

definition split_on :: "char \<Rightarrow> string \<Rightarrow> string list" where
  "split_on c s = (case split_segments c s of (seg, segs) \<Rightarrow> seg # segs)"

text \<open>\<open>c in s\<close> together with \<open>s.split(c, 1)\<close>: \<open>None\<close> when \<open>c\<close> does not occur, otherwise
  the text before the first \<open>c\<close> and the text after it.\<close>

fun split1 :: "char \<Rightarrow> string \<Rightarrow> (string \<times> string) option" where
  "split1 c [] = None"
| "split1 c (x # xs) =
     (if x = c then Some ([], xs)
      else (case split1 c xs of None \<Rightarrow> None | Some (a, b) \<Rightarrow> Some (x # a, b)))"

text \<open>\<open>sub in s\<close> for a substring.\<close>

fun contains :: "string \<Rightarrow> string \<Rightarrow> bool" where
  "contains sub [] = (sub = [])"
| "contains sub (x # xs) = (prefix sub (x # xs) \<or> contains sub xs)"

text \<open>\<open>s.partition(sep)\<close> for a separator that is not empty: \<open>None\<close> when \<open>sep\<close> does
  not occur (Python then returns \<open>(s, "", "")\<close>), otherwise the text before the first
  occurrence and the text after it.\<close>

fun partition_str :: "string \<Rightarrow> string \<Rightarrow> (string \<times> string) option" where
  "partition_str sep [] = (if sep = [] then Some ([], []) else None)"
| "partition_str sep (x # xs) =
     (if prefix sep (x # xs) then Some ([], drop (length sep) (x # xs))
      else (case partition_str sep xs of None \<Rightarrow> None | Some (a, b) \<Rightarrow> Some (x # a, b)))"

section \<open>The header parser\<close>

text \<open>
  \<^verbatim>\<open>
  def parse_headers(headers_str):
      headers = {}
      for line in headers_str.split("\n"):
          if ":" in line:
              key, value = line.split(":", 1)
              headers[key.strip().lower()] = value.strip()
      return headers
  \<close>
  The dictionary is a map; the loop is a left fold over the lines.
\<close>

definition header_line :: "(string \<rightharpoonup> string) \<Rightarrow> string \<Rightarrow> (string \<rightharpoonup> string)" where
  "header_line headers line =
     (case split1 (CHR '':'') line of
        None \<Rightarrow> headers
      | Some (key, val) \<Rightarrow> headers(lower (strip key) \<mapsto> strip val))"

definition parse_headers :: "string \<Rightarrow> (string \<rightharpoonup> string)" where
  "parse_headers headers_str = foldl header_line Map.empty (split_on (CHR 0x0A) headers_str)"

text \<open>What one line contributes, in the words of the specification: the lower-cased
  trimmed key and the trimmed value of a line with a colon, nothing for any other line.\<close>

definition line_key :: "string \<Rightarrow> string option" where
  "line_key line =
     (if CHR '':'' \<in> set line
      then Some (lower (strip (takeWhile (\<lambda>c. c \<noteq> CHR '':'') line))) else None)"

definition line_value :: "string \<Rightarrow> string" where
  "line_value line = strip (drop (Suc (length (takeWhile (\<lambda>c. c \<noteq> CHR '':'') line))) line)"

section \<open>Paths, bytes and the file system\<close>

text \<open>\<open>s.rfind(c)\<close>: the index of the last occurrence, \<open>-1\<close> when there is none.\<close>

definition rfind :: "char \<Rightarrow> string \<Rightarrow> int" where
  "rfind c s =
     (if c \<in> set s then int (length s) - 1 - int (length (takeWhile (\<lambda>x. x \<noteq> c) (rev s)))
      else - 1)"

text \<open>\<open>os.path\<close> is \<open>posixpath\<close>. \<open>posixpath.basename\<close>: \<^verbatim>\<open>i = p.rfind('/') + 1; return p[i:]\<close>.\<close>

definition basename :: "string \<Rightarrow> string" where
  "basename p = drop (nat (rfind (CHR ''/'') p + 1)) p"

text \<open>
  \<open>posixpath.splitext\<close>, which is \<open>genericpath._splitext(p, '/', None, '.')\<close>:
  \<^verbatim>\<open>
      sepIndex = p.rfind(sep)
      dotIndex = p.rfind(extsep)
      if dotIndex > sepIndex:
          filenameIndex = sepIndex + 1
          while filenameIndex < dotIndex:
              if p[filenameIndex:filenameIndex+1] != extsep:
                  return p[:dotIndex], p[dotIndex:]
              filenameIndex += 1
      return p, p[:0]
  \<close>
  The loop looks for a character other than the dot in \<open>p[sepIndex+1:dotIndex]\<close>.
\<close>

definition splitext :: "string \<Rightarrow> string \<times> string" where
  "splitext p =
     (let sepIndex = rfind (CHR ''/'') p; dotIndex = rfind (CHR ''.'') p
      in if dotIndex > sepIndex \<and>
            list_ex (\<lambda>c. c \<noteq> CHR ''.'') (drop (nat (sepIndex + 1)) (take (nat dotIndex) p))
         then (take (nat dotIndex) p, drop (nat dotIndex) p)
         else (p, []))"

text \<open>\<open>posixpath.join(a, b)\<close> for two components.\<close>

definition join :: "string \<Rightarrow> string \<Rightarrow> string" where
  "join a b =
     (if prefix ''/'' b then b
      else if a = [] \<or> suffix ''/'' a then a @ b
      else a @ ''/'' @ b)"

text \<open>\<open>posixpath.dirname\<close>:
  \<^verbatim>\<open>
      i = p.rfind('/') + 1
      head = p[:i]
      if head and head != '/' * len(head):
          head = head.rstrip('/')
      return head
  \<close>\<close>

definition dirname :: "string \<Rightarrow> string" where
  "dirname p =
     (let head = take (nat (rfind (CHR ''/'') p + 1)) p
      in if head \<noteq> [] \<and> head \<noteq> replicate (length head) (CHR ''/'')
         then rev (dropWhile (\<lambda>c. c = CHR ''/'') (rev head))
         else head)"

type_synonym bytes = "8 word list"

text \<open>\<open>s.encode("utf-8")\<close> on code points below 256: one byte below 128, two bytes from
  128 on.\<close>

definition utf8_char :: "char \<Rightarrow> bytes" where
  "utf8_char c =
     (let n = (of_char c :: nat)
      in if n < 128 then [of_nat n] else [of_nat (192 + n div 64), of_nat (128 + n mod 64)])"

definition utf8 :: "string \<Rightarrow> bytes" where
  "utf8 s = concat (map utf8_char s)"

text \<open>The file system: the content of every file, and the directories that \<open>os.makedirs\<close>
  has been called for (those it creates on the way to them are not recorded).\<close>

record filesystem =
  files :: "string \<rightharpoonup> bytes"
  dirs :: "string set"

section \<open>The document tree\<close>

text \<open>
  The tree that \<open>BeautifulSoup(text, "html.parser")\<close> builds. A tag has a name, its
  attributes in the order of the \<open>attrs\<close> dictionary, and its children; a value of an
  attribute is a \<open>str\<close>, or a list of \<open>str\<close> for the attributes that the parser splits
  at whitespace (\<open>class\<close> among them; not \<open>style\<close>, \<open>src\<close> or \<open>href\<close>). The
  \<open>BeautifulSoup\<close> object is itself a tag, the root, named \<open>[document]\<close>.
\<close>

datatype attr_value = Str string | StrList "string list"

datatype node =
    Tag (name: string) (attrs: "(string \<times> attr_value) list") (contents: "node list")
  | NavigableString string

text \<open>
  An element is known by its place in the tree: the indices of the children on the way
  from the root. \<open>find_all\<close> returns its elements before the loop over them starts, and the
  loops of \<open>process_styles\<close> and \<open>update_references\<close> change attributes only, so a place
  names the same element throughout a loop.
\<close>

type_synonym path = "nat list"

primrec node_at :: "path \<Rightarrow> node \<Rightarrow> node option" where
  "node_at [] n = Some n"
| "node_at (i # p) n =
     (case n of
        Tag t a cs \<Rightarrow> if i < length cs then node_at p (cs ! i) else None
      | NavigableString s \<Rightarrow> None)"

definition attrs_at :: "path \<Rightarrow> node \<Rightarrow> (string \<times> attr_value) list option" where
  "attrs_at p soup =
     (case node_at p soup of Some (Tag t a cs) \<Rightarrow> Some a | _ \<Rightarrow> None)"

definition name_at :: "path \<Rightarrow> node \<Rightarrow> string option" where
  "name_at p soup =
     (case node_at p soup of Some (Tag t a cs) \<Rightarrow> Some t | _ \<Rightarrow> None)"

text \<open>\<open>Tag.descendants\<close>: every node below the root, in document order.\<close>

fun descendants :: "node \<Rightarrow> path list"
  and descendants_from :: "nat \<Rightarrow> node list \<Rightarrow> path list" where
  "descendants (Tag t a cs) = descendants_from 0 cs"
| "descendants (NavigableString s) = []"
| "descendants_from i [] = []"
| "descendants_from i (c # cs) =
     [i] # map ((#) i) (descendants c) @ descendants_from (Suc i) cs"

text \<open>The attributes of the element at a place are replaced; nothing else changes.\<close>

primrec set_attrs :: "path \<Rightarrow> (string \<times> attr_value) list \<Rightarrow> node \<Rightarrow> node" where
  "set_attrs [] a n =
     (case n of Tag t b cs \<Rightarrow> Tag t a cs | NavigableString s \<Rightarrow> NavigableString s)"
| "set_attrs (i # p) a n =
     (case n of
        Tag t b cs \<Rightarrow>
          if i < length cs then Tag t b (cs[i := set_attrs p a (cs ! i)]) else Tag t b cs
      | NavigableString s \<Rightarrow> NavigableString s)"

text \<open>\<open>tag.get(key, default)\<close>; \<open>tag[key] = value\<close> is \<open>AList.update\<close>, which keeps the
  place of a key that is there and appends a new one, and \<open>del tag[key]\<close> is
  \<open>AList.delete\<close>.\<close>

definition get_attr :: "(string \<times> attr_value) list \<Rightarrow> string \<Rightarrow> attr_value \<Rightarrow> attr_value" where
  "get_attr a key dflt = (case map_of a key of None \<Rightarrow> dflt | Some v \<Rightarrow> v)"

text \<open>The tree without its attributes: the names of the tags, the text and the shape.\<close>

fun erase_attrs :: "node \<Rightarrow> node" where
  "erase_attrs (Tag t a cs) = Tag t [] (map erase_attrs cs)"
| "erase_attrs (NavigableString s) = NavigableString s"

datatype error = AttributeError | TypeError | KeyError

section \<open>The world outside the program\<close>

text \<open>
  What the program takes from its libraries and from the operating system, and this
  development leaves open:
  \<^item> \<open>read_text fs path\<close>: \<open>open(path, "r", encoding="utf-8").read()\<close>, \<open>None\<close> when it raises;
  \<^item> \<open>may_mkdir fs path\<close>, \<open>may_write fs path\<close>: whether \<open>os.makedirs(path, exist_ok=True)\<close>
    and \<open>open(path, "wb")\<close> or \<open>open(path, "w")\<close> with the write that follows succeed;
  \<^item> \<open>b64decode s\<close>: \<open>base64.b64decode(s)\<close>, \<open>None\<close> when it raises;
  \<^item> \<open>relpath path start\<close>: \<open>os.path.relpath(path, start=start)\<close>, which reads the current
    directory;
  \<^item> \<open>re_split pattern text\<close>: \<open>re.split(pattern, text)\<close> where the pattern holds characters
    special to \<open>re\<close>, \<open>None\<close> when the pattern does not compile;
  \<^item> \<open>html_parser text\<close>: \<open>BeautifulSoup(text, "html.parser")\<close>, and \<open>to_str soup\<close>:
    \<open>str(soup)\<close>;
  \<^item> \<open>empty_msg soup\<close>: the placeholder pass \<open>MHTProcessor.empty_msg\<close>, \<open>None\<close> when it
    raises;
  \<^item> \<open>insert_returns_list\<close>: whether \<open>Tag.insert\<close> returns the list of the inserted
    elements (bs4 from 4.13 on) or \<open>None\<close> (bs4 before 4.13).
\<close>

record env =
  read_text :: "filesystem \<Rightarrow> string \<Rightarrow> string option"
  may_mkdir :: "filesystem \<Rightarrow> string \<Rightarrow> bool"
  may_write :: "filesystem \<Rightarrow> string \<Rightarrow> bool"
  b64decode :: "string \<Rightarrow> bytes option"
  relpath :: "string \<Rightarrow> string \<Rightarrow> string"
  re_split :: "string \<Rightarrow> string \<Rightarrow> string list option"
  html_parser :: "string \<Rightarrow> node"
  to_str :: "node \<Rightarrow> string"
  empty_msg :: "node \<Rightarrow> node option"
  insert_returns_list :: bool

text \<open>\<open>os.makedirs(path, exist_ok=True)\<close> and the writing of a whole file; \<open>None\<close> when the
  call raises, and then the file system is as before.\<close>

definition makedirs :: "env \<Rightarrow> filesystem \<Rightarrow> string \<Rightarrow> filesystem option" where
  "makedirs e fs path =
     (if may_mkdir e fs path then Some (fs\<lparr>dirs := insert path (dirs fs)\<rparr>) else None)"

definition write_file :: "env \<Rightarrow> filesystem \<Rightarrow> string \<Rightarrow> bytes \<Rightarrow> filesystem option" where
  "write_file e fs path content =
     (if may_write e fs path then Some (fs\<lparr>files := (files fs)(path \<mapsto> content)\<rparr>) else None)"

section \<open>The resource extractor\<close>

definition CONTENT_TYPE_MAP :: "string \<rightharpoonup> string" where
  "CONTENT_TYPE_MAP =
     [''image/jpeg'' \<mapsto> ''jpg'', ''image/png'' \<mapsto> ''png'', ''image/gif'' \<mapsto> ''gif'']"

text \<open>
  \<^verbatim>\<open>
  def save_resource(content_location, content_type, data, encoding, resource_dir,
                    progress_callback=None):
      try:
          original_name = os.path.basename(content_location)
          base_name = os.path.splitext(original_name)[0]
          extension = CONTENT_TYPE_MAP.get(
              content_type, content_type.split("/")[-1].split("+")[-1])
          os.makedirs(resource_dir, exist_ok=True)
          filename = f"{base_name}.{extension}"
          file_path = os.path.join(resource_dir, filename)
          content = base64.b64decode(data) if encoding == "base64" else data.encode("utf-8")
          with open(file_path, "wb") as f:
              f.write(content)
          if progress_callback:
              progress_callback(1)
          return (content_location, file_path)
      except Exception as e:
          print(...)
          return None
  \<close>
  The caller passes \<open>headers.get("content-location")\<close>, which is \<open>None\<close> when the header is
  missing; \<open>os.path.basename(None)\<close> raises \<open>TypeError\<close>. Every exception ends in
  \<open>return None\<close>; the function returns the file system as the steps before the exception
  left it. The progress callback only moves the progress bar.
\<close>

definition extension_of :: "string \<Rightarrow> string" where
  "extension_of content_type =
     (case CONTENT_TYPE_MAP content_type of
        Some ext \<Rightarrow> ext
      | None \<Rightarrow> last (split_on (CHR ''+'') (last (split_on (CHR ''/'') content_type))))"

definition save_resource ::
  "env \<Rightarrow> filesystem \<Rightarrow> string option \<Rightarrow> string \<Rightarrow> string \<Rightarrow> string \<Rightarrow> string
     \<Rightarrow> filesystem \<times> (string \<times> string) option" where
  "save_resource e fs content_location content_type data encoding resource_dir =
     (case content_location of
        None \<Rightarrow> (fs, None)
      | Some location \<Rightarrow>
          let original_name = basename location;
              base_name = fst (splitext original_name);
              extension = extension_of content_type
          in (case makedirs e fs resource_dir of
                None \<Rightarrow> (fs, None)
              | Some fs1 \<Rightarrow>
                  let filename = base_name @ ''.'' @ extension;
                      file_path = join resource_dir filename
                  in (case (if encoding = ''base64'' then b64decode e data
                            else Some (utf8 data)) of
                        None \<Rightarrow> (fs1, None)
                      | Some content \<Rightarrow>
                          (case write_file e fs1 file_path content of
                             None \<Rightarrow> (fs1, None)
                           | Some fs2 \<Rightarrow> (fs2, Some (location, file_path))))))"

text \<open>The names of the specification: the final path segment of a location, a name
  without its extension (the text from the last dot on, where a character other than the
  dot stands before that dot), and the last token of a content type's subtype.\<close>

definition final_segment :: "string \<Rightarrow> string" where
  "final_segment p = rev (takeWhile (\<lambda>c. c \<noteq> CHR ''/'') (rev p))"

definition without_extension :: "string \<Rightarrow> string" where
  "without_extension n =
     (let stem = rev (drop 1 (dropWhile (\<lambda>c. c \<noteq> CHR ''.'') (rev n)))
      in if (\<exists>c \<in> set stem. c \<noteq> CHR ''.'') then stem else n)"

definition subtype_token :: "string \<Rightarrow> string" where
  "subtype_token content_type =
     rev (takeWhile (\<lambda>c. c \<noteq> CHR ''+'')
       (takeWhile (\<lambda>c. c \<noteq> CHR ''/'') (rev content_type)))"

definition resource_file_name :: "string \<Rightarrow> string \<Rightarrow> string" where
  "resource_file_name location content_type =
     without_extension (final_segment location) @ ''.'' @
       (if content_type = ''image/jpeg'' then ''jpg''
        else if content_type = ''image/png'' then ''png''
        else if content_type = ''image/gif'' then ''gif''
        else subtype_token content_type)"

section \<open>The style pass\<close>

text \<open>\<open>str(n)\<close> for a natural number, as the f-string prints the counter.\<close>

fun str_nat :: "nat \<Rightarrow> string" where
  "str_nat n =
     (if n < 10 then [char_of (48 + n)]
      else str_nat (n div 10) @ [char_of (48 + n mod 10)])"

declare str_nat.simps [simp del]

text \<open>\<open>sep.join(xs)\<close>.\<close>

fun str_join :: "string \<Rightarrow> string list \<Rightarrow> string" where
  "str_join sep [] = []"
| "str_join sep [x] = x"
| "str_join sep (x # y # ys) = x @ sep @ str_join sep (y # ys)"

text \<open>
  \<^verbatim>\<open>
  def process_styles(self, soup):
      style_map = {}
      css_rules = []
      counter = 1
      for element in soup.find_all(style=True):
          if not (original_style := element.get("style", "").strip()):
              continue
          if original_style not in style_map:
              class_name = f"i-style-{counter}"
              style_map[original_style] = class_name
              css_rules.append(f".{class_name} {{ {original_style} }}")
              counter += 1
          element["class"] = element.get("class", []) + [style_map[original_style]]
          del element["style"]
      return "\n".join(css_rules)
  \<close>
  \<open>strip\<close> on a list raises \<open>AttributeError\<close>, a \<open>str\<close> plus a list raises
  \<open>TypeError\<close> and a missing key of \<open>style_map\<close> raises \<open>KeyError\<close>; with the values
  that \<open>html.parser\<close> gives to \<open>style\<close> and \<open>class\<close> none of them happens.
\<close>

record style_state =
  style_map :: "string \<rightharpoonup> string"
  css_rules :: "string list"
  counter :: nat

definition find_all_style :: "node \<Rightarrow> path list" where
  "find_all_style soup =
     filter (\<lambda>p. case attrs_at p soup of Some a \<Rightarrow> map_of a ''style'' \<noteq> None | None \<Rightarrow> False)
       (descendants soup)"

definition new_style :: "style_state \<Rightarrow> string \<Rightarrow> style_state" where
  "new_style st original_style =
     (if style_map st original_style = None
      then let class_name = ''i-style-'' @ str_nat (counter st)
           in \<lparr>style_map = (style_map st)(original_style \<mapsto> class_name),
               css_rules = css_rules st @ [''.'' @ class_name @ '' { '' @ original_style @ '' }''],
               counter = counter st + 1\<rparr>
      else st)"

definition style_element :: "path \<Rightarrow> style_state \<times> node \<Rightarrow> error + style_state \<times> node" where
  "style_element p s =
     (case s of (st, soup) \<Rightarrow>
        (case attrs_at p soup of
           None \<Rightarrow> Inr (st, soup)
         | Some a \<Rightarrow>
             (case get_attr a ''style'' (Str []) of
                StrList l \<Rightarrow> Inl AttributeError
              | Str style \<Rightarrow>
                  let original_style = strip style
                  in if original_style = [] then Inr (st, soup)
                     else let st' = new_style st original_style
                          in (case get_attr a ''class'' (StrList []) of
                                Str c \<Rightarrow> Inl TypeError
                              | StrList classes \<Rightarrow>
                                  (case style_map st' original_style of
                                     None \<Rightarrow> Inl KeyError
                                   | Some class_name \<Rightarrow>
                                       Inr (st',
                                         set_attrs p
                                           (AList.delete ''style''
                                             (AList.update ''class''
                                               (StrList (classes @ [class_name])) a))
                                           soup))))))"

fun style_loop :: "path list \<Rightarrow> style_state \<times> node \<Rightarrow> error + style_state \<times> node" where
  "style_loop [] s = Inr s"
| "style_loop (p # ps) s =
     (case style_element p s of Inl err \<Rightarrow> Inl err | Inr s' \<Rightarrow> style_loop ps s')"

definition process_styles :: "node \<Rightarrow> error + string \<times> node" where
  "process_styles soup =
     (case style_loop (find_all_style soup)
             (\<lparr>style_map = Map.empty, css_rules = [], counter = 1\<rparr>, soup) of
        Inl err \<Rightarrow> Inl err
      | Inr (st, soup') \<Rightarrow> Inr (str_join [CHR 0x0A] (css_rules st), soup'))"

text \<open>The words of the specification about the style pass: the inline style string of an
  element, the class it has received (the last of its class list), the trimmed styles of
  the document in document order, each style once in the order of its first sight, and the
  name \<open>i-style-N\<close> of the style that was the \<open>N\<close>th to be seen.\<close>

definition inline_style :: "node \<Rightarrow> path \<Rightarrow> string option" where
  "inline_style soup p =
     (case attrs_at p soup of
        None \<Rightarrow> None
      | Some a \<Rightarrow> (case map_of a ''style'' of Some (Str style) \<Rightarrow> Some style | _ \<Rightarrow> None))"

definition generated_class :: "node \<Rightarrow> path \<Rightarrow> string option" where
  "generated_class soup p =
     (case attrs_at p soup of
        None \<Rightarrow> None
      | Some a \<Rightarrow>
          (case map_of a ''class'' of
             Some (StrList classes) \<Rightarrow> if classes = [] then None else Some (last classes)
           | _ \<Rightarrow> None))"

definition key_at :: "node \<Rightarrow> path \<Rightarrow> string list" where
  "key_at soup p =
     (case inline_style soup p of
        None \<Rightarrow> []
      | Some style \<Rightarrow> if strip style = [] then [] else [strip style])"

definition style_keys :: "node \<Rightarrow> string list" where
  "style_keys soup = concat (map (key_at soup) (descendants soup))"

definition first_seen :: "string list \<Rightarrow> string list" where
  "first_seen keys = rev (remdups (rev keys))"

definition class_of_style :: "string list \<Rightarrow> string \<Rightarrow> string" where
  "class_of_style keys style =
     ''i-style-'' @ str_nat (Suc (length (takeWhile (\<lambda>k. k \<noteq> style) (first_seen keys))))"

text \<open>The attributes of an element after the style pass has given it a class, and the
  state of the loop after the trimmed styles \<open>seen\<close>.\<close>

definition restyle :: "(string \<times> attr_value) list \<Rightarrow> string \<Rightarrow> (string \<times> attr_value) list" where
  "restyle a class_name =
     AList.delete ''style''
       (AList.update ''class''
          (StrList ((case get_attr a ''class'' (StrList []) of
                       StrList classes \<Rightarrow> classes | Str c \<Rightarrow> []) @ [class_name])) a)"

definition css_rule :: "string list \<Rightarrow> string \<Rightarrow> string" where
  "css_rule keys style = ''.'' @ class_of_style keys style @ '' { '' @ style @ '' }''"

definition numbered :: "string list \<Rightarrow> style_state \<Rightarrow> bool" where
  "numbered seen st \<longleftrightarrow>
     style_map st = (\<lambda>k. if k \<in> set seen then Some (class_of_style seen k) else None) \<and>
     counter st = Suc (length (first_seen seen)) \<and>
     css_rules st = map (css_rule seen) (first_seen seen)"

definition restyled :: "string list \<Rightarrow> node \<Rightarrow> path \<Rightarrow> (string \<times> attr_value) list option" where
  "restyled keys t q =
     (case attrs_at q t of
        None \<Rightarrow> None
      | Some a \<Rightarrow>
          (case key_at t q of [] \<Rightarrow> Some a | k # ks \<Rightarrow> Some (restyle a (class_of_style keys k))))"

text \<open>Examples: a document with three styled elements, two of them with the same style
  but for the whitespace around it, and what the style pass makes of it; and a document
  with classes and a blank style.\<close>

definition styles_example :: node where
  "styles_example =
     Tag ''[document]'' []
       [Tag ''html'' []
          [Tag ''body'' []
             [Tag ''p'' [(''style'', Str ''color:red'')] [NavigableString ''x''],
              Tag ''p'' [(''class'', StrList [''c'']), (''style'', Str '' color:red '')]
                [Tag ''b'' [(''style'', Str ''  '')] []],
              Tag ''img'' [(''src'', Str ''a.jpg''), (''style'', Str ''w:1'')] []]]]"

definition styles_example_result :: node where
  "styles_example_result =
     Tag ''[document]'' []
       [Tag ''html'' []
          [Tag ''body'' []
             [Tag ''p'' [(''class'', StrList [''i-style-1''])] [NavigableString ''x''],
              Tag ''p'' [(''class'', StrList [''c'', ''i-style-1''])]
                [Tag ''b'' [(''style'', Str ''  '')] []],
              Tag ''img'' [(''src'', Str ''a.jpg''), (''class'', StrList [''i-style-2''])] []]]]"

definition classes_example :: node where
  "classes_example =
     Tag ''[document]'' []
       [Tag ''div'' [(''class'', StrList [''i-style-1'']), (''style'', Str '' '')]
          [Tag ''span'' [(''class'', StrList [''note''])] [NavigableString ''t'']]]"

section \<open>The reference pass\<close>

text \<open>
  \<^verbatim>\<open>
  def update_references(self, soup, resource_map, output_path):
      for tag in soup.find_all(["img", "link", "script"]):
          attr = "src" if tag.name == "img" else "href"
          if resource_path := resource_map.get(tag.get(attr, "")):
              relative_path = os.path.relpath(
                  resource_path, start=os.path.dirname(output_path))
              tag[attr] = relative_path
  \<close>
  A list as the key of \<open>resource_map.get\<close> raises \<open>TypeError\<close>; \<open>html.parser\<close> gives a
  \<open>str\<close> to \<open>src\<close> and \<open>href\<close>. An empty path in the map is false in the \<open>if\<close>.
\<close>

definition find_all_refs :: "node \<Rightarrow> path list" where
  "find_all_refs soup =
     filter (\<lambda>p. case name_at p soup of
                    Some t \<Rightarrow> t \<in> set [''img'', ''link'', ''script'']
                  | None \<Rightarrow> False)
       (descendants soup)"

definition ref_attr :: "string \<Rightarrow> string" where
  "ref_attr tag_name = (if tag_name = ''img'' then ''src'' else ''href'')"

definition update_reference ::
  "env \<Rightarrow> (string \<rightharpoonup> string) \<Rightarrow> string \<Rightarrow> path \<Rightarrow> node \<Rightarrow> error + node" where
  "update_reference e resource_map output_path p soup =
     (case node_at p soup of
        Some (Tag t a cs) \<Rightarrow>
          let attr = ref_attr t
          in (case get_attr a attr (Str []) of
                StrList l \<Rightarrow> Inl TypeError
              | Str v \<Rightarrow>
                  (case resource_map v of
                     None \<Rightarrow> Inr soup
                   | Some resource_path \<Rightarrow>
                       if resource_path = [] then Inr soup
                       else let relative_path = relpath e resource_path (dirname output_path)
                            in Inr (set_attrs p (AList.update attr (Str relative_path) a) soup)))
      | _ \<Rightarrow> Inr soup)"

fun reference_loop ::
  "env \<Rightarrow> (string \<rightharpoonup> string) \<Rightarrow> string \<Rightarrow> path list \<Rightarrow> node \<Rightarrow> error + node" where
  "reference_loop e resource_map output_path [] soup = Inr soup"
| "reference_loop e resource_map output_path (p # ps) soup =
     (case update_reference e resource_map output_path p soup of
        Inl err \<Rightarrow> Inl err
      | Inr soup' \<Rightarrow> reference_loop e resource_map output_path ps soup')"

definition update_references ::
  "env \<Rightarrow> node \<Rightarrow> (string \<rightharpoonup> string) \<Rightarrow> string \<Rightarrow> error + node" where
  "update_references e soup resource_map output_path =
     reference_loop e resource_map output_path (find_all_refs soup) soup"

section \<open>The splitter\<close>

text \<open>
  \<open>re.search(r'boundary="([^"]+)"', content)\<close>: the first place where \<open>boundary="\<close> is
  followed by one or more characters other than the double quote and then by a double
  quote; the group is those characters. \<open>boundary_at\<close> is the match at the start of the
  text.
\<close>

definition boundary_at :: "string \<Rightarrow> string option" where
  "boundary_at s =
     (if prefix (''boundary='' @ [CHR 0x22]) s
      then let rest = drop 10 s; token = takeWhile (\<lambda>c. c \<noteq> CHR 0x22) rest
           in if token \<noteq> [] \<and> length token < length rest then Some token else None
      else None)"

fun search_boundary :: "string \<Rightarrow> string option" where
  "search_boundary [] = None"
| "search_boundary (c # cs) =
     (case boundary_at (c # cs) of
        Some boundary \<Rightarrow> Some boundary
      | None \<Rightarrow> search_boundary cs)"

text \<open>
  \<open>re.split(rf"--{boundary}(?:--)?\n", content)\<close>. The boundary goes into the pattern as it
  is. Where it holds no character that is special in a pattern, the pattern matches the
  text \<open>--{boundary}--\<close> or \<open>--{boundary}\<close> followed by a newline; \<open>marker_length\<close> is the
  length of the match at the start of a text and \<open>find_marker\<close> cuts a text at its first
  match. For any other boundary the result is left to \<open>re_split\<close>.
\<close>

definition plain_boundary :: "string \<Rightarrow> bool" where
  "plain_boundary boundary =
     list_all (\<lambda>c. c \<notin> set (''.^$*+?{}[]|()'' @ [CHR 0x5C])) boundary"

definition marker_length :: "string \<Rightarrow> string \<Rightarrow> nat option" where
  "marker_length boundary s =
     (if prefix (''--'' @ boundary @ ''--'' @ [CHR 0x0A]) s then Some (length boundary + 5)
      else if prefix (''--'' @ boundary @ [CHR 0x0A]) s then Some (length boundary + 3)
      else None)"

fun find_marker :: "string \<Rightarrow> string \<Rightarrow> (string \<times> string) option" where
  "find_marker boundary [] = None"
| "find_marker boundary (c # cs) =
     (case marker_length boundary (c # cs) of
        Some n \<Rightarrow> Some ([], drop n (c # cs))
      | None \<Rightarrow>
          (case find_marker boundary cs of
             None \<Rightarrow> None
           | Some (before, after) \<Rightarrow> Some (c # before, after)))"

lemma find_marker_shorter:
  "find_marker boundary s = Some (before, after) \<Longrightarrow> length after < length s"
proof (induction s arbitrary: before after)
  case Nil
  then show ?case by simp
next
  case (Cons c cs)
  show ?case
  proof (cases "marker_length boundary (c # cs)")
    case (Some n)
    then have "0 < n" by (auto simp: marker_length_def split: if_splits)
    with Some Cons.prems show ?thesis by auto
  next
    case None
    with Cons.prems obtain b where "find_marker boundary cs = Some (b, after)"
      by (auto split: option.splits)
    with Cons.IH have "length after < length cs" by blast
    then show ?thesis by simp
  qed
qed

function split_markers :: "string \<Rightarrow> string \<Rightarrow> string list" where
  "split_markers boundary s =
     (case find_marker boundary s of
        None \<Rightarrow> [s]
      | Some (before, after) \<Rightarrow> before # split_markers boundary after)"
  by pat_completeness auto
termination
  by (relation "measure (\<lambda>(boundary, s). length s)") (auto dest: find_marker_shorter)

declare split_markers.simps [simp del]

text \<open>
  \<open>re.search(r"(?:\n\n|\r\n\r\n)(.*?)(?=\n--|$)", html_part, re.DOTALL)\<close>: the match
  starts at the first blank line; the group is the shortest text after it that is followed
  by a newline and two hyphens, or by the end of the part, where \<open>$\<close> also matches before
  a newline that ends the part.
\<close>

fun after_blank_line :: "string \<Rightarrow> string option" where
  "after_blank_line [] = None"
| "after_blank_line (c # cs) =
     (if prefix [CHR 0x0A, CHR 0x0A] (c # cs) then Some (drop 2 (c # cs))
      else if prefix [CHR 0x0D, CHR 0x0A, CHR 0x0D, CHR 0x0A] (c # cs) then Some (drop 4 (c # cs))
      else after_blank_line cs)"

fun up_to_hyphens :: "string \<Rightarrow> string" where
  "up_to_hyphens [] = []"
| "up_to_hyphens (c # cs) =
     (if prefix [CHR 0x0A, CHR ''-'', CHR ''-''] (c # cs) \<or> c # cs = [CHR 0x0A] then []
      else c # up_to_hyphens cs)"

definition html_match :: "string \<Rightarrow> string option" where
  "html_match html_part = map_option up_to_hyphens (after_blank_line html_part)"

section \<open>The pipeline\<close>

text \<open>
  \<open>MHTProcessor.process\<close> returns \<open>True\<close> after it has written the output, and \<open>False\<close>
  from its \<open>except Exception\<close> after it has printed the message of the exception. The
  model returns the file system together with the outcome; a failure carries the exception:
  one of the three \<open>ValueError\<close>s that \<open>process\<close> raises itself, or any other.
\<close>

datatype reason = No_boundary | No_html | No_html_body | Raised

datatype outcome = Converted | Failed reason

definition returns :: "outcome \<Rightarrow> bool" where
  "returns out = (out = Converted)"

definition split_parts :: "env \<Rightarrow> string \<Rightarrow> string \<Rightarrow> string list option" where
  "split_parts e boundary content =
     (if plain_boundary boundary then Some (split_markers boundary content)
      else re_split e (''--'' @ boundary @ ''(?:--)?'' @ [CHR 0x5C, CHR ''n'']) content)"

text \<open>From the content of the file to the parts and the text that is given to the HTML
  parser (lines 137 to 150 of \<open>mht2html.py\<close>).\<close>

definition html_document :: "env \<Rightarrow> string \<Rightarrow> reason + string list \<times> string" where
  "html_document e content =
     (case search_boundary content of
        None \<Rightarrow> Inl No_boundary
      | Some boundary \<Rightarrow>
          (case split_parts e boundary content of
             None \<Rightarrow> Inl Raised
           | Some parts \<Rightarrow>
               (case find (contains ''Content-Type: text/html'') parts of
                  None \<Rightarrow> Inl No_html
                | Some html_part \<Rightarrow>
                    (case html_match html_part of
                       None \<Rightarrow> Inl No_html_body
                     | Some body \<Rightarrow> Inr (parts, strip body)))))"

text \<open>The parser, the placeholder pass and the style pass (lines 150 to 154).\<close>

definition prepare :: "env \<Rightarrow> string \<Rightarrow> reason + string list \<times> string \<times> node" where
  "prepare e content =
     (case html_document e content of
        Inl r \<Rightarrow> Inl r
      | Inr (parts, html) \<Rightarrow>
          (case empty_msg e (html_parser e html) of
             None \<Rightarrow> Inl Raised
           | Some soup \<Rightarrow>
               (case process_styles soup of
                  Inl err \<Rightarrow> Inl Raised
                | Inr (css, soup') \<Rightarrow> Inr (parts, css, soup'))))"

text \<open>
  The arguments of the call of \<open>save_resource\<close> that a part is submitted with (lines 170 to
  193); \<open>None\<close> for a part that is skipped.
  \<^verbatim>\<open>
      if "Content-Location:" not in part:
          continue
      headers_str, _, body = part.partition("\n\n")
      headers = parse_headers(headers_str)
      content_location = headers.get("content-location")
      content_type = headers.get("content-type", "").split(";")[0]
      encoding = headers.get("content-transfer-encoding", "7bit")
      if content_type.startswith("text/html"):
          continue
      futures.append(self.executor.submit(save_resource, content_location, content_type,
          body.strip(), encoding, resource_dir, progress_bar.update))
  \<close>
\<close>

record task =
  task_location :: "string option"
  task_type :: string
  task_data :: string
  task_encoding :: string

definition resource_task :: "string \<Rightarrow> task option" where
  "resource_task part =
     (if \<not> contains ''Content-Location:'' part then None
      else let (headers_str, body) =
                 (case partition_str [CHR 0x0A, CHR 0x0A] part of
                    None \<Rightarrow> (part, [])
                  | Some (h, b) \<Rightarrow> (h, b));
               headers = parse_headers headers_str;
               ctype = fst (split_segments (CHR '';'')
                              (case headers ''content-type'' of None \<Rightarrow> [] | Some v \<Rightarrow> v))
           in if prefix ''text/html'' ctype then None
              else Some \<lparr>task_location = headers ''content-location'',
                         task_type = ctype,
                         task_data = strip body,
                         task_encoding = (case headers ''content-transfer-encoding'' of
                                       None \<Rightarrow> ''7bit'' | Some v \<Rightarrow> v)\<rparr>)"

definition resource_tasks :: "string list \<Rightarrow> task list" where
  "resource_tasks parts = List.map_filter resource_task parts"

text \<open>The content type that these lines read in the headers of a part, whether or not the
  part is submitted.\<close>

definition content_type_of :: "string \<Rightarrow> string" where
  "content_type_of part =
     (let headers_str =
            (case partition_str [CHR 0x0A, CHR 0x0A] part of None \<Rightarrow> part | Some (h, b) \<Rightarrow> h);
          headers = parse_headers headers_str
      in fst (split_segments (CHR '';'')
                (case headers ''content-type'' of None \<Rightarrow> [] | Some v \<Rightarrow> v)))"

text \<open>
  The calls run on a pool of threads. The model runs them one after the other in the order
  of submission, and \<open>as_completed\<close> yields their results in that order; the result of a
  call is the value of \<open>future.result()\<close>.
  \<^verbatim>\<open>
      for future in as_completed(futures):
          if result := future.result():
              resource_map[result[0]] = result[1]
  \<close>
\<close>

fun run_tasks ::
  "env \<Rightarrow> filesystem \<Rightarrow> string \<Rightarrow> task list \<Rightarrow> filesystem \<times> (string \<times> string) option list" where
  "run_tasks e fs resource_dir [] = (fs, [])"
| "run_tasks e fs resource_dir (t # ts) =
     (case save_resource e fs (task_location t) (task_type t) (task_data t)
             (task_encoding t) resource_dir of
        (fs1, result) \<Rightarrow>
          (case run_tasks e fs1 resource_dir ts of
             (fs2, results) \<Rightarrow> (fs2, result # results)))"

definition collect :: "(string \<times> string) option list \<Rightarrow> (string \<rightharpoonup> string)" where
  "collect results =
     foldl (\<lambda>resource_map result.
              case result of
                None \<Rightarrow> resource_map
              | Some (location, file_path) \<Rightarrow> resource_map(location \<mapsto> file_path))
       Map.empty results"

text \<open>
  The stylesheet (lines 201 to 207):
  \<^verbatim>\<open>
      if css_content:
          style_tag = soup.new_tag("style", type="text/css")
          style_tag.string = css_content
          if soup.head:
              soup.head.append(style_tag)
          else:
              soup.html.insert(0, soup.new_tag("head")).append(style_tag)
  \<close>
  \<open>soup.head\<close> and \<open>soup.html\<close> are the first descendant of that name, or \<open>None\<close>. The
  method \<open>Tag.insert\<close> does not return the inserted tag: it returns \<open>None\<close>, on which
  \<open>.append\<close> raises \<open>AttributeError\<close>, or from bs4 4.13 on the list of the inserted
  elements, and then \<open>.append\<close> is the \<open>append\<close> of that list, which leaves the tree alone.
  \<open>None.insert\<close> raises \<open>AttributeError\<close> as well.
\<close>

definition find_tag :: "string \<Rightarrow> node \<Rightarrow> path option" where
  "find_tag tag_name soup = find (\<lambda>p. name_at p soup = Some tag_name) (descendants soup)"

primrec map_node_at :: "path \<Rightarrow> (node \<Rightarrow> node) \<Rightarrow> node \<Rightarrow> node" where
  "map_node_at [] f n = f n"
| "map_node_at (i # p) f n =
     (case n of
        Tag t a cs \<Rightarrow>
          if i < length cs then Tag t a (cs[i := map_node_at p f (cs ! i)]) else Tag t a cs
      | NavigableString s \<Rightarrow> NavigableString s)"

definition append_child :: "node \<Rightarrow> node \<Rightarrow> node" where
  "append_child new n =
     (case n of Tag t a cs \<Rightarrow> Tag t a (cs @ [new]) | NavigableString s \<Rightarrow> NavigableString s)"

definition insert_first :: "node \<Rightarrow> node \<Rightarrow> node" where
  "insert_first new n =
     (case n of Tag t a cs \<Rightarrow> Tag t a (new # cs) | NavigableString s \<Rightarrow> NavigableString s)"

definition style_tag :: "string \<Rightarrow> node" where
  "style_tag css_content = Tag ''style'' [(''type'', Str ''text/css'')] [NavigableString css_content]"

definition inject_stylesheet :: "env \<Rightarrow> string \<Rightarrow> node \<Rightarrow> error + node" where
  "inject_stylesheet e css_content soup =
     (if css_content = [] then Inr soup
      else (case find_tag ''head'' soup of
              Some head \<Rightarrow> Inr (map_node_at head (append_child (style_tag css_content)) soup)
            | None \<Rightarrow>
                (case find_tag ''html'' soup of
                   None \<Rightarrow> Inl AttributeError
                 | Some html \<Rightarrow>
                     if insert_returns_list e
                     then Inr (map_node_at html (insert_first (Tag ''head'' [] [])) soup)
                     else Inl AttributeError)))"

text \<open>The steps after the extraction (lines 199 to 214): the reference pass, the
  stylesheet and the writing of the output.\<close>

definition finish ::
  "env \<Rightarrow> filesystem \<Rightarrow> node \<Rightarrow> string \<Rightarrow> (string \<rightharpoonup> string) \<Rightarrow> string
     \<Rightarrow> filesystem \<times> outcome" where
  "finish e fs soup css_content resource_map output_path =
     (case update_references e soup resource_map output_path of
        Inl err \<Rightarrow> (fs, Failed Raised)
      | Inr soup1 \<Rightarrow>
          (case inject_stylesheet e css_content soup1 of
             Inl err \<Rightarrow> (fs, Failed Raised)
           | Inr soup2 \<Rightarrow>
               (case write_file e fs output_path (utf8 (to_str e soup2)) of
                  None \<Rightarrow> (fs, Failed Raised)
                | Some fs' \<Rightarrow> (fs', Converted))))"

definition process :: "env \<Rightarrow> filesystem \<Rightarrow> string \<Rightarrow> string \<Rightarrow> string \<Rightarrow> filesystem \<times> outcome" where
  "process e fs mht_path output_path resource_dir =
     (case read_text e fs mht_path of
        None \<Rightarrow> (fs, Failed Raised)
      | Some content \<Rightarrow>
          (case prepare e content of
             Inl r \<Rightarrow> (fs, Failed r)
           | Inr (parts, css_content, soup) \<Rightarrow>
               (case run_tasks e fs (join (dirname output_path) resource_dir)
                       (resource_tasks parts) of
                  (fs1, results) \<Rightarrow>
                    finish e fs1 soup css_content (collect results) output_path)))"

section \<open>Example documents\<close>

text \<open>Archives with the boundary \<open>X\<close>: one without a boundary declaration, one without an
  HTML part, one whose HTML part has no blank line, one whose HTML holds a comment that
  ends at the start of a line, one with three resources of which two have the same
  content location, one whose HTML has an inline style and no head, one whose only part is
  plain text that names the content type of a page, and one with a resource whose content
  location is empty and an image without a source.\<close>

definition boundary_header :: string where
  "boundary_header =
     ''MIME-Version: 1.0\<newline>Content-Type: multipart/related; boundary='' @ [CHR 0x22] @ ''X'' @
     [CHR 0x22] @ ''\<newline>\<newline>''"

definition none_document :: string where
  "none_document = ''MIME-Version: 1.0\<newline>Content-Type: text/html\<newline>\<newline><p>a</p>\<newline>''"

definition plain_document :: string where
  "plain_document =
     boundary_header @ ''--X\<newline>Content-Type: text/plain\<newline>\<newline>hello\<newline>--X--\<newline>''"

definition headers_document :: string where
  "headers_document = boundary_header @ ''--X\<newline>Content-Type: text/html\<newline>--X--\<newline>''"

definition comment_document :: string where
  "comment_document =
     boundary_header @
     ''--X\<newline>Content-Type: text/html\<newline>\<newline><p>a</p>\<newline><!-- note\<newline>-->\<newline><p>c</p>\<newline>--X--\<newline>''"

definition twice_html :: string where
  "twice_html = ''<html><head></head><body><img src=a.png><img src=b.png></body></html>''"

definition twice_soup :: node where
  "twice_soup =
     Tag ''[document]'' []
       [Tag ''html'' []
          [Tag ''head'' [] [],
           Tag ''body'' []
             [Tag ''img'' [(''src'', Str ''a.png'')] [],
              Tag ''img'' [(''src'', Str ''b.png'')] []]]]"

definition twice_result :: node where
  "twice_result =
     Tag ''[document]'' []
       [Tag ''html'' []
          [Tag ''head'' [] [],
           Tag ''body'' []
             [Tag ''img'' [(''src'', Str ''images/a.png'')] [],
              Tag ''img'' [(''src'', Str ''b.png'')] []]]]"

definition twice_document :: string where
  "twice_document =
     boundary_header @
     ''--X\<newline>Content-Type: text/html\<newline>\<newline>'' @ twice_html @ ''\<newline>'' @
     ''--X\<newline>Content-Type: image/png\<newline>Content-Transfer-Encoding: base64\<newline>Content-Location: a.png\<newline>\<newline>aGk\<newline>'' @
     ''--X\<newline>Content-Type: image/png\<newline>Content-Transfer-Encoding: base64\<newline>Content-Location: a.png\<newline>\<newline>aGk=\<newline>'' @
     ''--X\<newline>Content-Type: image/png\<newline>Content-Transfer-Encoding: base64\<newline>Content-Location: b.png\<newline>\<newline>aGk\<newline>'' @
     ''--X--\<newline>''"

definition nohead_html :: string where
  "nohead_html = ''<html><body><p style=color:red>x</p></body></html>''"

definition nohead_soup :: node where
  "nohead_soup =
     Tag ''[document]'' []
       [Tag ''html'' []
          [Tag ''body'' [] [Tag ''p'' [(''style'', Str ''color:red'')] [NavigableString ''x'']]]]"

definition nohead_styled :: node where
  "nohead_styled =
     Tag ''[document]'' []
       [Tag ''html'' []
          [Tag ''body'' []
             [Tag ''p'' [(''class'', StrList [''i-style-1''])] [NavigableString ''x'']]]]"

definition nohead_document :: string where
  "nohead_document =
     boundary_header @
     ''--X\<newline>Content-Type: text/html\<newline>\<newline>'' @ nohead_html @ ''\<newline>--X--\<newline>''"

definition nohead_inserted :: node where
  "nohead_inserted =
     Tag ''[document]'' []
       [Tag ''html'' []
          [Tag ''head'' [] [],
           Tag ''body'' []
             [Tag ''p'' [(''class'', StrList [''i-style-1''])] [NavigableString ''x'']]]]"

definition quoted_text :: string where
  "quoted_text = ''Content-Type: text/html is the type of a page''"

definition quoted_soup :: node where
  "quoted_soup = Tag ''[document]'' [] [NavigableString quoted_text]"

definition quoted_document :: string where
  "quoted_document =
     boundary_header @
     ''--X\<newline>Content-Type: text/plain\<newline>\<newline>'' @ quoted_text @ ''\<newline>--X--\<newline>''"

definition unnamed_html :: string where
  "unnamed_html = ''<html><head></head><body><img alt=x></body></html>''"

definition unnamed_soup :: node where
  "unnamed_soup =
     Tag ''[document]'' []
       [Tag ''html'' []
          [Tag ''head'' [] [],
           Tag ''body'' [] [Tag ''img'' [(''alt'', Str ''x'')] []]]]"

definition unnamed_result :: node where
  "unnamed_result =
     Tag ''[document]'' []
       [Tag ''html'' []
          [Tag ''head'' [] [],
           Tag ''body'' []
             [Tag ''img'' [(''alt'', Str ''x''), (''src'', Str ''images/.png'')] []]]]"

definition unnamed_document :: string where
  "unnamed_document =
     boundary_header @
     ''--X\<newline>Content-Type: text/html\<newline>\<newline>'' @ unnamed_html @ ''\<newline>'' @
     ''--X\<newline>Content-Type: image/png\<newline>Content-Transfer-Encoding: base64\<newline>Content-Location:\<newline>\<newline>aGk=\<newline>'' @
     ''--X--\<newline>''"

text \<open>A world for the examples: the files \<open>none.mht\<close>, \<open>plain.mht\<close>, \<open>headers.mht\<close>,
  \<open>comment.mht\<close>, \<open>twice.mht\<close>, \<open>nohead.mht\<close>, \<open>quoted.mht\<close> and \<open>unnamed.mht\<close> hold the
  documents above; every directory and file may be written; the base64 text \<open>aGk=\<close>
  decodes to the two bytes of \<open>hi\<close> and no other text decodes (\<open>aGk\<close> has an incorrect
  padding); a path relative to the current directory is relative to it; the parser knows
  the texts above; the placeholder pass finds nothing to replace; and \<open>Tag.insert\<close> returns
  \<open>None\<close>.\<close>

definition env_example :: env where
  "env_example =
     \<lparr>read_text = (\<lambda>fs path. map_of [(''none.mht'', none_document),
          (''plain.mht'', plain_document), (''headers.mht'', headers_document),
          (''comment.mht'', comment_document), (''twice.mht'', twice_document),
          (''nohead.mht'', nohead_document), (''quoted.mht'', quoted_document),
          (''unnamed.mht'', unnamed_document)] path),
      may_mkdir = (\<lambda>fs path. True),
      may_write = (\<lambda>fs path. True),
      b64decode = (\<lambda>s. if s = ''aGk='' then Some [104, 105] else None),
      relpath = (\<lambda>path start. path), re_split = (\<lambda>pattern text. None),
      html_parser = (\<lambda>text. if text = twice_html then twice_soup
                            else if text = nohead_html then nohead_soup
                            else if text = quoted_text then quoted_soup
                            else if text = unnamed_html then unnamed_soup
                            else Tag ''[document]'' [] []),
      to_str = (\<lambda>soup. ''<html>''),
      empty_msg = Some, insert_returns_list = False\<rparr>"

definition empty_filesystem :: filesystem where
  "empty_filesystem = \<lparr>files = Map.empty, dirs = {}\<rparr>"

text \<open>What the reference pass makes of the attributes of the element at a place.\<close>

definition rewritten ::
  "env \<Rightarrow> (string \<rightharpoonup> string) \<Rightarrow> string \<Rightarrow> node \<Rightarrow> path \<Rightarrow> (string \<times> attr_value) list option" where
  "rewritten e resource_map output_path soup q =
     (case attrs_at q soup of
        None \<Rightarrow> None
      | Some a \<Rightarrow>
          (case name_at q soup of
             None \<Rightarrow> Some a
           | Some t \<Rightarrow>
               (case get_attr a (ref_attr t) (Str []) of
                  StrList l \<Rightarrow> Some a
                | Str v \<Rightarrow>
                    (case resource_map v of
                       None \<Rightarrow> Some a
                     | Some resource_path \<Rightarrow>
                         if resource_path = [] then Some a
                         else Some (AList.update (ref_attr t)
                                (Str (relpath e resource_path (dirname output_path))) a)))))"

text \<open>An example for the reference pass: two resources in the map, a reference to a resource
  that is not in it, and values equal to a key in attributes that the pass does not read.\<close>

definition refs_example :: node where
  "refs_example =
     Tag ''[document]'' []
       [Tag ''html'' []
          [Tag ''head'' []
             [Tag ''link'' [(''rel'', StrList [''stylesheet'']), (''href'', Str ''s.css'')] [],
              Tag ''script'' [(''src'', Str ''a.jpg'')] []],
           Tag ''body'' []
             [Tag ''img'' [(''src'', Str ''a.jpg''), (''alt'', Str ''a.jpg'')] [],
              Tag ''img'' [(''src'', Str ''gone.png'')] [],
              Tag ''a'' [(''href'', Str ''a.jpg'')] [NavigableString ''a.jpg'']]]]"

definition refs_example_result :: node where
  "refs_example_result =
     Tag ''[document]'' []
       [Tag ''html'' []
          [Tag ''head'' []
             [Tag ''link'' [(''rel'', StrList [''stylesheet'']), (''href'', Str ''images/s.css'')] [],
              Tag ''script'' [(''src'', Str ''a.jpg'')] []],
           Tag ''body'' []
             [Tag ''img'' [(''src'', Str ''images/a.jpg''), (''alt'', Str ''a.jpg'')] [],
              Tag ''img'' [(''src'', Str ''gone.png'')] [],
              Tag ''a'' [(''href'', Str ''a.jpg'')] [NavigableString ''a.jpg'']]]]"

definition resource_map_example :: "string \<rightharpoonup> string" where
  "resource_map_example = [''a.jpg'' \<mapsto> ''images/a.jpg'', ''s.css'' \<mapsto> ''images/s.css'']"

text \<open>The values that \<open>html.parser\<close> gives: a \<open>str\<close> to \<open>style\<close>, a list to \<open>class\<close>, and a
  \<open>str\<close> to the attribute that the reference pass reads.\<close>

definition style_typed :: "node \<Rightarrow> path \<Rightarrow> bool" where
  "style_typed soup p \<longleftrightarrow>
     (\<forall>a. attrs_at p soup = Some a \<longrightarrow>
        (\<forall>l. map_of a ''style'' \<noteq> Some (StrList l)) \<and>
        (\<forall>c. map_of a ''class'' \<noteq> Some (Str c)))"

definition ref_typed :: "node \<Rightarrow> path \<Rightarrow> bool" where
  "ref_typed soup p \<longleftrightarrow>
     (\<forall>t a l. name_at p soup = Some t \<longrightarrow> attrs_at p soup = Some a \<longrightarrow>
        map_of a (ref_attr t) \<noteq> Some (StrList l))"

section \<open>Properties of the header parser\<close>

lemma split1_None: "split1 c s = None \<longleftrightarrow> c \<notin> set s"
  by (induction s) (auto split: option.splits)

lemma split1_Some:
  "split1 c s = Some (a, b) \<longleftrightarrow>
     c \<in> set s \<and> a = takeWhile (\<lambda>x. x \<noteq> c) s \<and> b = drop (Suc (length a)) s"
proof (induction s arbitrary: a b)
  case Nil
  show ?case by simp
next
  case (Cons x s)
  show ?case
  proof (cases "x = c")
    case True
    then show ?thesis by auto
  next
    case False
    show ?thesis
    proof (cases "split1 c s")
      case None
      with False show ?thesis by (auto simp: split1_None [symmetric])
    next
      case (Some ab)
      obtain a' b' where ab: "ab = (a', b')" by (cases ab)
      from Some ab Cons.IH [of a' b'] False show ?thesis by auto
    qed
  qed
qed

lemma header_line_apply:
  "header_line m l k =
     (if line_key l = Some k then Some (line_value l) else m k)"
proof (cases "split1 (CHR '':'') l")
  case None
  moreover from None have "CHR '':'' \<notin> set l" by (simp add: split1_None)
  ultimately show ?thesis
    by (simp add: header_line_def line_key_def)
next
  case (Some ab)
  obtain a b where ab: "ab = (a, b)" by (cases ab)
  from Some ab have "split1 (CHR '':'') l = Some (a, b)" by simp
  then have "CHR '':'' \<in> set l" "a = takeWhile (\<lambda>x. x \<noteq> CHR '':'') l"
    "b = drop (Suc (length a)) l"
    by (simp_all add: split1_Some)
  with Some ab show ?thesis
    by (simp add: header_line_def line_key_def line_value_def)
qed

lemma foldl_header_line:
  "foldl header_line m ls k =
     (case filter (\<lambda>l. line_key l = Some k) (rev ls) of
        [] \<Rightarrow> m k
      | l # _ \<Rightarrow> Some (line_value l))"
proof (induction ls rule: rev_induct)
  case Nil
  show ?case by simp
next
  case (snoc l ls)
  then show ?case by (simp add: header_line_apply)
qed

text \<open>
  C7. For every text block, \<open>parse_headers\<close> maps the lower-cased trimmed key of each
  line that has a colon to the trimmed value of that line; a line without a colon adds
  nothing; the empty block gives the empty mapping; of several lines with the same key
  (after trimming and lower-casing) the last one gives the value; and parsing the same
  block again gives the same mapping.
\<close>

theorem parse_headers_mapping:
  "parse_headers [] = Map.empty \<and>
   parse_headers hs k =
     (case filter (\<lambda>l. line_key l = Some k) (rev (split_on (CHR 0x0A) hs)) of
        [] \<Rightarrow> None
      | l # _ \<Rightarrow> Some (line_value l)) \<and>
   (hs' = hs \<longrightarrow> parse_headers hs' = parse_headers hs)"
  by (simp add: parse_headers_def foldl_header_line split_on_def header_line_def)

theorem parse_headers_mapping_witness:
  "parse_headers
     ''Content-Type: text/html\<newline>no colon here\<newline>CONTENT-TYPE : image/png\<newline>X:1''
     ''content-type'' = Some ''image/png''"
  using parse_headers_mapping
    [of "''Content-Type: text/html\<newline>no colon here\<newline>CONTENT-TYPE : image/png\<newline>X:1''"
        "''content-type''", THEN conjunct2, THEN conjunct1]
  by code_simp

text \<open>
  C10. A header line is split at its first colon only: the step of the loop for a line
  that has a colon stores, under the key of the line, all of the line after the first
  colon, trimmed, whatever further colons it holds; and that is the value of the key in the
  result for the block, where no later line has the same key.
\<close>

theorem parse_headers_first_colon:
  assumes "CHR '':'' \<in> set line"
  shows "header_line headers line (lower (strip (takeWhile (\<lambda>c. c \<noteq> CHR '':'') line))) =
           Some (strip (drop (Suc (length (takeWhile (\<lambda>c. c \<noteq> CHR '':'') line))) line)) \<and>
         (split_on (CHR 0x0A) hs = pre @ line # post \<and>
          (\<forall>l \<in> set post. line_key l \<noteq> line_key line) \<longrightarrow>
          parse_headers hs (lower (strip (takeWhile (\<lambda>c. c \<noteq> CHR '':'') line))) =
            Some (strip (drop (Suc (length (takeWhile (\<lambda>c. c \<noteq> CHR '':'') line))) line)))"
proof -
  let ?k = "lower (strip (takeWhile (\<lambda>c. c \<noteq> CHR '':'') line))"
  from assms have key: "line_key line = Some ?k" by (simp add: line_key_def)
  then have 1: "header_line headers line ?k = Some (line_value line)"
    by (simp add: header_line_apply)
  have 2: "parse_headers hs ?k = Some (line_value line)"
    if lines: "split_on (CHR 0x0A) hs = pre @ line # post"
      and later: "\<forall>l \<in> set post. line_key l \<noteq> line_key line"
  proof -
    from key later have "filter (\<lambda>l. line_key l = Some ?k) (rev post) = []"
      by (auto simp: filter_empty_conv)
    moreover have "parse_headers hs ?k =
       (case filter (\<lambda>l. line_key l = Some ?k) (rev (pre @ line # post)) of
          [] \<Rightarrow> None | l # _ \<Rightarrow> Some (line_value l))"
      by (simp only: parse_headers_def foldl_header_line lines)
    ultimately show ?thesis using key by simp
  qed
  from 1 2 show ?thesis by (simp add: line_value_def)
qed

theorem parse_headers_first_colon_witness:
  "CHR '':'' \<in> set ''Content-Location: cid:a:b.png '' \<and>
   header_line Map.empty ''Content-Location: cid:a:b.png '' ''content-location'' =
     Some ''cid:a:b.png'' \<and>
   split_on (CHR 0x0A) ''Content-Location: cid:a:b.png \<newline>X: y'' =
     [] @ ''Content-Location: cid:a:b.png '' # [''X: y''] \<and>
   parse_headers ''Content-Location: cid:a:b.png \<newline>X: y'' ''content-location'' =
     Some ''cid:a:b.png''"
proof -
  have 1: "split_on (CHR 0x0A) ''Content-Location: cid:a:b.png \<newline>X: y'' =
      [] @ ''Content-Location: cid:a:b.png '' # [''X: y'']"
    by (simp add: split_on_def)
  have 2: "CHR '':'' \<in> set ''Content-Location: cid:a:b.png ''" by simp
  have 3: "\<forall>l \<in> set [''X: y'']. line_key l \<noteq> line_key ''Content-Location: cid:a:b.png ''"
    by code_simp
  have 4: "lower (strip (takeWhile (\<lambda>c. c \<noteq> CHR '':'') ''Content-Location: cid:a:b.png ''))
      = ''content-location''"
    by code_simp
  have 5: "strip (drop (Suc (length (takeWhile (\<lambda>c. c \<noteq> CHR '':'')
      ''Content-Location: cid:a:b.png ''))) ''Content-Location: cid:a:b.png '') = ''cid:a:b.png''"
    by code_simp
  from parse_headers_first_colon [OF 2, of Map.empty
      "''Content-Location: cid:a:b.png \<newline>X: y''" "[]" "[''X: y'']"] 1 2 3
  show ?thesis unfolding 4 5 by simp
qed

section \<open>Properties of the resource extractor\<close>

lemma take_length_takeWhile: "take (length (takeWhile P xs)) xs = takeWhile P xs"
  by (induction xs) auto

lemma drop_length_takeWhile: "drop (length (takeWhile P xs)) xs = dropWhile P xs"
  by (induction xs) auto

lemma length_takeWhile_less: "c \<in> set s \<Longrightarrow> length (takeWhile (\<lambda>x. x \<noteq> c) s) < length s"
  by (induction s) auto

lemma takeWhile_absent: "c \<notin> set s \<Longrightarrow> takeWhile (\<lambda>x. x \<noteq> c) s = s"
  by (induction s) auto

lemma dropWhile_absent: "c \<notin> set s \<Longrightarrow> dropWhile (\<lambda>x. x \<noteq> c) s = []"
  by (induction s) auto

lemma rfind_absent: "c \<notin> set s \<Longrightarrow> rfind c s = - 1"
  by (simp add: rfind_def)

lemma rfind_present:
  "c \<in> set s \<Longrightarrow>
     rfind c s = int (length s - Suc (length (takeWhile (\<lambda>x. x \<noteq> c) (rev s))))"
  using length_takeWhile_less [of c "rev s"] by (simp add: rfind_def)

lemma drop_from_end: "k \<le> length s \<Longrightarrow> drop (length s - k) s = rev (take k (rev s))"
  by (simp add: rev_take)

lemma take_from_end: "k \<le> length s \<Longrightarrow> take (length s - k) s = rev (drop k (rev s))"
  by (simp add: rev_drop)

lemma basename_final_segment: "basename p = final_segment p"
proof (cases "CHR ''/'' \<in> set p")
  case False
  then show ?thesis by (simp add: basename_def final_segment_def rfind_absent takeWhile_absent)
next
  case True
  let ?k = "length (takeWhile (\<lambda>c. c \<noteq> CHR ''/'') (rev p))"
  from True have k: "?k < length p" using length_takeWhile_less [of "CHR ''/''" "rev p"] by simp
  then have "nat (rfind (CHR ''/'') p + 1) = length p - ?k"
    using True by (simp add: rfind_present)
  then have "basename p = rev (take ?k (rev p))"
    using k by (simp add: basename_def drop_from_end)
  then show ?thesis by (simp add: final_segment_def take_length_takeWhile)
qed

lemma final_segment_no_slash: "CHR ''/'' \<notin> set (final_segment p)"
  by (auto simp: final_segment_def dest: set_takeWhileD)

lemma takeWhile_snoc_stop: "\<not> P y \<Longrightarrow> takeWhile P (xs @ [y]) = takeWhile P xs"
  by (induction xs) auto

lemma split_segments_absent: "c \<notin> set s \<Longrightarrow> split_segments c s = (s, [])"
proof (induction s)
  case Nil
  show ?case by simp
next
  case (Cons x s)
  then have "x \<noteq> c" "split_segments c s = (s, [])" by auto
  then show ?case by simp
qed

lemma split_segments_present: "c \<in> set s \<Longrightarrow> snd (split_segments c s) \<noteq> []"
proof (induction s)
  case Nil
  then show ?case by simp
next
  case (Cons x s)
  obtain seg segs where p: "split_segments c s = (seg, segs)" by (cases "split_segments c s")
  show ?case
  proof (cases "x = c")
    case True
    with p show ?thesis by simp
  next
    case False
    with Cons p show ?thesis by simp
  qed
qed

lemma last_split_on: "last (split_on c s) = rev (takeWhile (\<lambda>x. x \<noteq> c) (rev s))"
proof (induction s)
  case Nil
  show ?case by (simp add: split_on_def)
next
  case (Cons x s)
  obtain seg segs where p: "split_segments c s = (seg, segs)" by (cases "split_segments c s")
  then have "split_on c s = seg # segs" by (simp add: split_on_def)
  with Cons have IH: "last (seg # segs) = rev (takeWhile (\<lambda>x. x \<noteq> c) (rev s))"
    by (simp only:)
  show ?case
  proof (cases "x = c")
    case True
    with p have "split_on c (x # s) = [] # seg # segs" by (simp add: split_on_def)
    then have "last (split_on c (x # s)) = last (seg # segs)" by simp
    moreover from True have "takeWhile (\<lambda>x. x \<noteq> c) (rev (x # s)) = takeWhile (\<lambda>x. x \<noteq> c) (rev s)"
      by (simp add: takeWhile_snoc_stop)
    ultimately show ?thesis by (simp only: IH)
  next
    case False
    with p have eq: "split_on c (x # s) = (x # seg) # segs" by (simp add: split_on_def)
    show ?thesis
    proof (cases "c \<in> set s")
      case True
      then have "takeWhile (\<lambda>x. x \<noteq> c) (rev (x # s)) = takeWhile (\<lambda>x. x \<noteq> c) (rev s)"
        by simp
      moreover from True p have "segs \<noteq> []" using split_segments_present [of c s] by simp
      then have "last ((x # seg) # segs) = last (seg # segs)" by simp
      ultimately show ?thesis by (simp only: eq IH)
    next
      case False
      with p have "seg = s" "segs = []" by (simp_all add: split_segments_absent)
      with eq have "last (split_on c (x # s)) = x # s" by simp
      moreover from False \<open>x \<noteq> c\<close> have "takeWhile (\<lambda>x. x \<noteq> c) (rev (x # s)) = rev (x # s)"
        by (intro takeWhile_absent) simp
      ultimately show ?thesis by (simp only: rev_rev_ident)
    qed
  qed
qed

lemma splitext_without_extension:
  assumes "CHR ''/'' \<notin> set n"
  shows "fst (splitext n) = without_extension n"
proof (cases "CHR ''.'' \<in> set n")
  case False
  with assms show ?thesis
    by (simp add: splitext_def without_extension_def rfind_absent dropWhile_absent)
next
  case True
  let ?k = "length (takeWhile (\<lambda>c. c \<noteq> CHR ''.'') (rev n))"
  from True have k: "?k < length n" using length_takeWhile_less [of "CHR ''.''" "rev n"] by simp
  have dot: "rfind (CHR ''.'') n = int (length n - Suc ?k)" using True by (rule rfind_present)
  have stem: "take (length n - Suc ?k) n = rev (drop 1 (dropWhile (\<lambda>c. c \<noteq> CHR ''.'') (rev n)))"
    using k by (simp add: take_from_end drop_length_takeWhile [symmetric] del: drop_length_takeWhile)
  have A: "splitext n =
      (if list_ex (\<lambda>c. c \<noteq> CHR ''.'') (take (length n - Suc ?k) n)
       then (take (length n - Suc ?k) n, drop (length n - Suc ?k) n) else (n, []))"
    using assms by (simp add: splitext_def rfind_absent dot)
  have B: "without_extension n =
      (if (\<exists>c \<in> set (take (length n - Suc ?k) n). c \<noteq> CHR ''.'')
       then take (length n - Suc ?k) n else n)"
    by (simp only: without_extension_def Let_def stem [symmetric])
  have C: "fst (if Q then (t, d) else (n, [])) = (if Q then t else n)" for Q and t d :: string
    by simp
  show ?thesis by (simp only: A B list_ex_iff C)
qed

lemma extension_of_subtype_token:
  "extension_of content_type =
     (if content_type = ''image/jpeg'' then ''jpg''
      else if content_type = ''image/png'' then ''png''
      else if content_type = ''image/gif'' then ''gif''
      else subtype_token content_type)"
  by (simp add: extension_of_def CONTENT_TYPE_MAP_def last_split_on subtype_token_def)

lemma without_extension_no_slash:
  "CHR ''/'' \<notin> set n \<Longrightarrow> CHR ''/'' \<notin> set (without_extension n)"
  by (auto simp: without_extension_def Let_def dest!: in_set_dropD set_dropWhileD)

lemma subtype_token_no_slash: "CHR ''/'' \<notin> set (subtype_token ct)"
  by (auto simp: subtype_token_def dest!: set_takeWhileD)

lemma resource_file_name_no_slash: "CHR ''/'' \<notin> set (resource_file_name location ct)"
  using without_extension_no_slash [OF final_segment_no_slash, of location]
    subtype_token_no_slash [of ct]
  by (simp add: resource_file_name_def)

lemma join_inside:
  "CHR ''/'' \<notin> set b \<Longrightarrow>
     join a b = (if a = [] \<or> suffix ''/'' a then a @ b else a @ ''/'' @ b)"
  by (cases b) (auto simp: join_def)

lemma save_resource_name:
  "fst (splitext (basename location)) @ CHR ''.'' # extension_of ct =
     resource_file_name location ct"
  using splitext_without_extension [OF final_segment_no_slash, of location]
  by (simp add: basename_final_segment extension_of_subtype_token resource_file_name_def)

lemma resource_file_name_examples:
  "resource_file_name ''http://x/img/a.b.jpeg'' ''image/svg+xml'' = ''a.b.xml''"
  "resource_file_name ''cid:blob'' ''application/octet-stream'' = ''cid:blob.octet-stream''"
  "resource_file_name ''a.png'' ''image/jpeg'' = ''a.jpg''"
  by (simp_all add: resource_file_name_def without_extension_def final_segment_def
      subtype_token_def)

lemma save_resource_example:
  "save_resource env_example \<lparr>files = Map.empty, dirs = {}\<rparr> (Some ''http://x/img/a.b.jpeg'')
      ''image/svg+xml'' ''aGk='' ''base64'' ''out/images''
    = (\<lparr>files = [''out/images/a.b.xml'' \<mapsto> [104, 105]], dirs = {''out/images''}\<rparr>,
       Some (''http://x/img/a.b.jpeg'', ''out/images/a.b.xml''))"
  by (simp add: save_resource_def env_example_def makedirs_def write_file_def join_def
    basename_def splitext_def rfind_def extension_of_def CONTENT_TYPE_MAP_def split_on_def
    Let_def suffix_to_prefix)

text \<open>What a call that returns a record has done.\<close>

lemma save_resource_returned:
  assumes "save_resource e fs content_location content_type data encoding resource_dir
             = (fs', Some r)"
  shows "\<exists>location content.
           content_location = Some location \<and>
           r = (location, join resource_dir (resource_file_name location content_type)) \<and>
           CHR ''/'' \<notin> set (resource_file_name location content_type) \<and>
           join resource_dir (resource_file_name location content_type) =
             (if resource_dir = [] \<or> suffix ''/'' resource_dir
              then resource_dir @ resource_file_name location content_type
              else resource_dir @ ''/'' @ resource_file_name location content_type) \<and>
           (if encoding = ''base64'' then b64decode e data = Some content
            else content = utf8 data) \<and>
           files fs' =
             (files fs)(join resource_dir (resource_file_name location content_type) \<mapsto> content)"
proof -
  from assms obtain location where loc: "content_location = Some location"
    by (cases content_location) (auto simp: save_resource_def)
  let ?path = "join resource_dir (resource_file_name location content_type)"
  from assms loc obtain fs1 content where
    mk: "makedirs e fs resource_dir = Some fs1" and
    dec: "(if encoding = ''base64'' then b64decode e data else Some (utf8 data)) = Some content" and
    wr: "write_file e fs1 ?path content = Some fs'" and
    r: "r = (location, ?path)"
    by (auto simp: save_resource_def Let_def save_resource_name split: option.splits)
  from mk have "files fs1 = files fs" by (auto simp: makedirs_def split: if_splits)
  with wr have "files fs' = (files fs)(?path \<mapsto> content)"
    by (auto simp: write_file_def split: if_splits)
  moreover from dec have "if encoding = ''base64'' then b64decode e data = Some content
            else content = utf8 data" by (auto split: if_splits)
  ultimately show ?thesis
    using loc r resource_file_name_no_slash [of location content_type]
      join_inside [OF resource_file_name_no_slash, of resource_dir location content_type]
    by blast
qed

text \<open>When a call returns a record: the content location is given, the directory can be made,
  the body can be decoded and the file can be written. A body in another encoding than
  \<open>base64\<close> always has its UTF-8 encoding.\<close>

lemma save_resource_written:
  assumes "content_location = Some location"
    and "may_mkdir e fs resource_dir"
    and "if encoding = ''base64'' then b64decode e data = Some content else content = utf8 data"
    and "may_write e (fs\<lparr>dirs := insert resource_dir (dirs fs)\<rparr>)
           (join resource_dir (resource_file_name location content_type))"
  shows "save_resource e fs content_location content_type data encoding resource_dir =
           (fs\<lparr>dirs := insert resource_dir (dirs fs),
               files := (files fs)
                 (join resource_dir (resource_file_name location content_type) \<mapsto> content)\<rparr>,
            Some (location, join resource_dir (resource_file_name location content_type)))"
  using assms
  by (auto simp: save_resource_def Let_def save_resource_name makedirs_def write_file_def
      split: if_splits)

lemma resource_file_name_blob:
  "resource_file_name ''http://x/files/blob.bin'' ''application/octet-stream'' =
     ''blob.octet-stream''"
  by (simp add: resource_file_name_def without_extension_def final_segment_def subtype_token_def)

lemma resource_file_name_svg:
  "resource_file_name ''http://x/img/a.b.jpeg'' ''image/svg+xml'' = ''a.b.xml''"
  by (simp add: resource_file_name_def without_extension_def final_segment_def subtype_token_def)

lemma join_examples:
  "join ''out/images'' ''blob.octet-stream'' = ''out/images/blob.octet-stream''"
  "join ''out/images'' ''a.b.xml'' = ''out/images/a.b.xml''"
  by (simp_all add: join_def suffix_to_prefix)

text \<open>
  C1. The file that \<open>save_resource\<close> writes is \<open>{baseName}.{extension}\<close> inside the resource
  directory: \<open>baseName\<close> is the final path segment of the content location without its
  extension, \<open>extension\<close> is \<open>jpg\<close>, \<open>png\<close> or \<open>gif\<close> for \<open>image/jpeg\<close>, \<open>image/png\<close> and
  \<open>image/gif\<close>, and for any other content type the last token, between plus signs, of what
  follows its last slash. The name holds no slash, so that the file lies in the resource
  directory itself. The bytes written are the base64 decoding of the body exactly when the
  transfer encoding is \<open>base64\<close>, and otherwise the UTF-8 encoding of the body; no other
  file changes. This is what every call that returns a record has done; and every call
  with a content location returns a record and has written that file whenever the
  directory can be made, the body can be decoded where the encoding is \<open>base64\<close>, and the
  file can be written.
\<close>

theorem save_resource_file:
  "(\<forall>fs' r.
      save_resource e fs content_location content_type data encoding resource_dir = (fs', Some r)
      \<longrightarrow>
      (\<exists>location content.
           content_location = Some location \<and>
           r = (location, join resource_dir (resource_file_name location content_type)) \<and>
           CHR ''/'' \<notin> set (resource_file_name location content_type) \<and>
           join resource_dir (resource_file_name location content_type) =
             (if resource_dir = [] \<or> suffix ''/'' resource_dir
              then resource_dir @ resource_file_name location content_type
              else resource_dir @ ''/'' @ resource_file_name location content_type) \<and>
           (if encoding = ''base64'' then b64decode e data = Some content
            else content = utf8 data) \<and>
           files fs' =
             (files fs)(join resource_dir (resource_file_name location content_type) \<mapsto> content)))
   \<and>
   (\<forall>location content.
      content_location = Some location \<and>
      may_mkdir e fs resource_dir \<and>
      (if encoding = ''base64'' then b64decode e data = Some content else content = utf8 data) \<and>
      may_write e (fs\<lparr>dirs := insert resource_dir (dirs fs)\<rparr>)
        (join resource_dir (resource_file_name location content_type))
      \<longrightarrow>
      save_resource e fs content_location content_type data encoding resource_dir =
        (fs\<lparr>dirs := insert resource_dir (dirs fs),
            files := (files fs)
              (join resource_dir (resource_file_name location content_type) \<mapsto> content)\<rparr>,
         Some (location, join resource_dir (resource_file_name location content_type))))"
proof (intro conjI allI impI)
  fix fs' r
  assume "save_resource e fs content_location content_type data encoding resource_dir
             = (fs', Some r)"
  then show "\<exists>location content.
           content_location = Some location \<and>
           r = (location, join resource_dir (resource_file_name location content_type)) \<and>
           CHR ''/'' \<notin> set (resource_file_name location content_type) \<and>
           join resource_dir (resource_file_name location content_type) =
             (if resource_dir = [] \<or> suffix ''/'' resource_dir
              then resource_dir @ resource_file_name location content_type
              else resource_dir @ ''/'' @ resource_file_name location content_type) \<and>
           (if encoding = ''base64'' then b64decode e data = Some content
            else content = utf8 data) \<and>
           files fs' =
             (files fs)(join resource_dir (resource_file_name location content_type) \<mapsto> content)"
    by (rule save_resource_returned)
next
  fix location content
  assume "content_location = Some location \<and>
      may_mkdir e fs resource_dir \<and>
      (if encoding = ''base64'' then b64decode e data = Some content else content = utf8 data) \<and>
      may_write e (fs\<lparr>dirs := insert resource_dir (dirs fs)\<rparr>)
        (join resource_dir (resource_file_name location content_type))"
  then show "save_resource e fs content_location content_type data encoding resource_dir =
        (fs\<lparr>dirs := insert resource_dir (dirs fs),
            files := (files fs)
              (join resource_dir (resource_file_name location content_type) \<mapsto> content)\<rparr>,
         Some (location, join resource_dir (resource_file_name location content_type)))"
    by (intro save_resource_written) simp_all
qed

theorem save_resource_file_witness:
  "save_resource env_example \<lparr>files = Map.empty, dirs = {}\<rparr> (Some ''http://x/files/blob.bin'')
      ''application/octet-stream'' (''caf'' @ [CHR 0xE9]) ''8bit'' ''out/images''
    = (\<lparr>files = [''out/images/blob.octet-stream'' \<mapsto> [99, 97, 102, 195, 169]],
        dirs = {''out/images''}\<rparr>,
       Some (''http://x/files/blob.bin'', ''out/images/blob.octet-stream'')) \<and>
   save_resource env_example \<lparr>files = Map.empty, dirs = {}\<rparr> (Some ''http://x/img/a.b.jpeg'')
      ''image/svg+xml'' ''aGk='' ''base64'' ''out/images''
    = (\<lparr>files = [''out/images/a.b.xml'' \<mapsto> [104, 105]], dirs = {''out/images''}\<rparr>,
       Some (''http://x/img/a.b.jpeg'', ''out/images/a.b.xml'')) \<and>
   (\<exists>location content.
      Some ''http://x/files/blob.bin'' = Some location \<and>
      (''http://x/files/blob.bin'', ''out/images/blob.octet-stream'') =
        (location, join ''out/images'' (resource_file_name location ''application/octet-stream'')) \<and>
      content = utf8 (''caf'' @ [CHR 0xE9]) \<and>
      files \<lparr>files = [''out/images/blob.octet-stream'' \<mapsto> [99, 97, 102, 195, 169]],
             dirs = {''out/images''}\<rparr> =
        (files \<lparr>files = Map.empty, dirs = {}\<rparr>)
          (join ''out/images'' (resource_file_name location ''application/octet-stream'')
             \<mapsto> content))"
proof -
  let ?fs = "\<lparr>files = Map.empty, dirs = {}\<rparr>"
  have "save_resource env_example ?fs (Some ''http://x/files/blob.bin'')
      ''application/octet-stream'' (''caf'' @ [CHR 0xE9]) ''8bit'' ''out/images'' =
        (?fs\<lparr>dirs := insert ''out/images'' (dirs ?fs),
            files := (files ?fs)
              (join ''out/images''
                 (resource_file_name ''http://x/files/blob.bin'' ''application/octet-stream'')
               \<mapsto> utf8 (''caf'' @ [CHR 0xE9]))\<rparr>,
         Some (''http://x/files/blob.bin'', join ''out/images''
                 (resource_file_name ''http://x/files/blob.bin'' ''application/octet-stream'')))"
    using save_resource_file [of env_example ?fs "Some ''http://x/files/blob.bin''"
        "''application/octet-stream''" "''caf'' @ [CHR 0xE9]" "''8bit''" "''out/images''",
        THEN conjunct2, rule_format, of "''http://x/files/blob.bin''" "utf8 (''caf'' @ [CHR 0xE9])"]
    by (simp add: env_example_def)
  then have raw: "save_resource env_example ?fs (Some ''http://x/files/blob.bin'')
      ''application/octet-stream'' (''caf'' @ [CHR 0xE9]) ''8bit'' ''out/images''
    = (\<lparr>files = [''out/images/blob.octet-stream'' \<mapsto> [99, 97, 102, 195, 169]],
        dirs = {''out/images''}\<rparr>,
       Some (''http://x/files/blob.bin'', ''out/images/blob.octet-stream''))"
    by (simp add: resource_file_name_blob join_examples utf8_def utf8_char_def)
  have "save_resource env_example ?fs (Some ''http://x/img/a.b.jpeg'')
      ''image/svg+xml'' ''aGk='' ''base64'' ''out/images'' =
        (?fs\<lparr>dirs := insert ''out/images'' (dirs ?fs),
            files := (files ?fs)
              (join ''out/images'' (resource_file_name ''http://x/img/a.b.jpeg'' ''image/svg+xml'')
               \<mapsto> [104, 105])\<rparr>,
         Some (''http://x/img/a.b.jpeg'', join ''out/images''
                 (resource_file_name ''http://x/img/a.b.jpeg'' ''image/svg+xml'')))"
    using save_resource_file [of env_example ?fs "Some ''http://x/img/a.b.jpeg''"
        "''image/svg+xml''" "''aGk=''" "''base64''" "''out/images''",
        THEN conjunct2, rule_format, of "''http://x/img/a.b.jpeg''" "[104, 105]"]
    by (simp add: env_example_def)
  then have decoded: "save_resource env_example ?fs (Some ''http://x/img/a.b.jpeg'')
      ''image/svg+xml'' ''aGk='' ''base64'' ''out/images''
    = (\<lparr>files = [''out/images/a.b.xml'' \<mapsto> [104, 105]], dirs = {''out/images''}\<rparr>,
       Some (''http://x/img/a.b.jpeg'', ''out/images/a.b.xml''))"
    by (simp add: resource_file_name_svg join_examples)
  from save_resource_file [THEN conjunct1, rule_format, OF raw]
  obtain location content where
    "Some ''http://x/files/blob.bin'' = Some location"
    "(''http://x/files/blob.bin'', ''out/images/blob.octet-stream'') =
        (location, join ''out/images'' (resource_file_name location ''application/octet-stream''))"
    "content = utf8 (''caf'' @ [CHR 0xE9])"
    "files \<lparr>files = [''out/images/blob.octet-stream'' \<mapsto> [99, 97, 102, 195, 169]],
             dirs = {''out/images''}\<rparr> =
        (files \<lparr>files = Map.empty, dirs = {}\<rparr>)
          (join ''out/images'' (resource_file_name location ''application/octet-stream'')
             \<mapsto> content)"
    by auto
  with raw decoded show ?thesis by blast
qed

section \<open>Properties of the document tree\<close>

lemma attrs_at_Nil: "attrs_at [] n = (case n of Tag t a cs \<Rightarrow> Some a | NavigableString s \<Rightarrow> None)"
  by (simp add: attrs_at_def split: node.splits)

lemma attrs_at_Cons:
  "attrs_at (i # p) n =
     (case n of Tag t a cs \<Rightarrow> if i < length cs then attrs_at p (cs ! i) else None
      | NavigableString s \<Rightarrow> None)"
  by (simp add: attrs_at_def split: node.splits)

lemma name_at_Nil: "name_at [] n = (case n of Tag t a cs \<Rightarrow> Some t | NavigableString s \<Rightarrow> None)"
  by (simp add: name_at_def split: node.splits)

lemma name_at_Cons:
  "name_at (i # p) n =
     (case n of Tag t a cs \<Rightarrow> if i < length cs then name_at p (cs ! i) else None
      | NavigableString s \<Rightarrow> None)"
  by (simp add: name_at_def split: node.splits)

lemma attrs_at_set_attrs:
  "attrs_at q (set_attrs p a n) =
     (if q = p then (case attrs_at p n of None \<Rightarrow> None | Some b \<Rightarrow> Some a) else attrs_at q n)"
proof (induction p arbitrary: q n)
  case Nil
  show ?case
    by (cases n; cases q) (simp_all add: attrs_at_Nil attrs_at_Cons)
next
  case (Cons i p)
  show ?case
  proof (cases n)
    case (NavigableString s)
    then show ?thesis by (cases q) (simp_all add: attrs_at_Nil attrs_at_Cons)
  next
    case (Tag t b cs)
    show ?thesis
    proof (cases q)
      case Nil
      with Tag show ?thesis by (simp add: attrs_at_Nil)
    next
      case (Cons j q')
      with Tag Cons.IH [of q' "cs ! i"] show ?thesis
        by (auto simp: attrs_at_Cons nth_list_update)
    qed
  qed
qed

lemma name_at_set_attrs: "name_at q (set_attrs p a n) = name_at q n"
proof (induction p arbitrary: q n)
  case Nil
  show ?case
    by (cases n; cases q) (simp_all add: name_at_Nil name_at_Cons)
next
  case (Cons i p)
  show ?case
  proof (cases n)
    case (NavigableString s)
    then show ?thesis by simp
  next
    case (Tag t b cs)
    show ?thesis
    proof (cases q)
      case Nil
      with Tag show ?thesis by (simp add: name_at_Nil)
    next
      case (Cons j q')
      with Tag Cons.IH [of q' "cs ! i"] show ?thesis
        by (auto simp: name_at_Cons nth_list_update)
    qed
  qed
qed

lemma erase_attrs_set_attrs: "erase_attrs (set_attrs p a n) = erase_attrs n"
proof (induction p arbitrary: n)
  case Nil
  show ?case by (cases n) simp_all
next
  case (Cons i p)
  show ?case
  proof (cases n)
    case (NavigableString s)
    then show ?thesis by simp
  next
    case (Tag t b cs)
    have "map erase_attrs (cs[i := set_attrs p a (cs ! i)]) = map erase_attrs cs"
      by (metis Cons.IH list_update_id map_update)
    with Tag show ?thesis by simp
  qed
qed

lemma descendants_from_hd:
  "p \<in> set (descendants_from i cs) \<Longrightarrow> \<exists>j q. p = j # q \<and> i \<le> j"
  by (induction cs arbitrary: i) (fastforce)+

lemma descendants_nonempty: "[] \<notin> set (descendants n)"
  using descendants_from_hd [of "[]" 0] by (cases n) auto

lemma distinct_descendants:
  "distinct (descendants n)" "distinct (descendants_from i cs)"
proof (induction n and i cs rule: descendants_descendants_from.induct)
  case (4 i c cs)
  have "[i] \<notin> set (descendants_from (Suc i) cs)"
    using descendants_from_hd [of "[i]" "Suc i" cs] by auto
  moreover have "set (map ((#) i) (descendants c)) \<inter> set (descendants_from (Suc i) cs) = {}"
    using descendants_from_hd [of _ "Suc i" cs] by fastforce
  ultimately show ?case using 4 descendants_nonempty [of c] by (auto simp: distinct_map)
qed simp_all

section \<open>Properties of the style pass\<close>

lemma first_seen_snoc:
  "first_seen (ks @ [k]) = (if k \<in> set ks then first_seen ks else first_seen ks @ [k])"
  by (simp add: first_seen_def)

lemma set_first_seen: "set (first_seen ks) = set ks"
  by (simp add: first_seen_def)

lemma class_of_style_snoc:
  "k \<in> set ks \<Longrightarrow> class_of_style (ks @ [k']) k = class_of_style ks k"
  by (simp add: class_of_style_def first_seen_snoc set_first_seen)

lemma class_of_style_append:
  "k \<in> set ks \<Longrightarrow> class_of_style (ks @ ks2) k = class_of_style ks k"
proof (induction ks2 rule: rev_induct)
  case Nil
  show ?case by simp
next
  case (snoc k' ks2)
  from snoc.prems have "k \<in> set (ks @ ks2)" by simp
  then have "class_of_style ((ks @ ks2) @ [k']) k = class_of_style (ks @ ks2) k"
    by (rule class_of_style_snoc)
  with snoc show ?case by simp
qed

lemma takeWhile_snoc_absent: "k \<notin> set xs \<Longrightarrow> takeWhile (\<lambda>x. x \<noteq> k) (xs @ [k]) = xs"
  by (induction xs) auto

lemma class_of_style_new:
  "k \<notin> set ks \<Longrightarrow>
     class_of_style (ks @ [k]) k = ''i-style-'' @ str_nat (Suc (length (first_seen ks)))"
  by (simp add: class_of_style_def first_seen_snoc set_first_seen takeWhile_snoc_absent)

lemma numbered_new_style:
  assumes "numbered seen st"
  shows "numbered (seen @ [k]) (new_style st k)"
proof (cases "k \<in> set seen")
  case True
  with assms have "new_style st k = st" by (simp add: numbered_def new_style_def)
  moreover have "(\<lambda>k'. if k' \<in> set (seen @ [k]) then Some (class_of_style (seen @ [k]) k') else None)
      = (\<lambda>k'. if k' \<in> set seen then Some (class_of_style seen k') else None)"
    using True by (auto simp: class_of_style_snoc fun_eq_iff)
  moreover have "map (css_rule (seen @ [k])) (first_seen seen) = map (css_rule seen) (first_seen seen)"
    by (rule map_cong) (simp_all add: css_rule_def class_of_style_snoc set_first_seen)
  ultimately show ?thesis using assms True by (simp add: numbered_def first_seen_snoc)
next
  case False
  with assms have st: "style_map st k = None" by (simp add: numbered_def)
  have cls: "class_of_style (seen @ [k]) k = ''i-style-'' @ str_nat (counter st)"
    using assms False by (simp add: class_of_style_new numbered_def)
  have "(style_map st)(k \<mapsto> ''i-style-'' @ str_nat (counter st))
      = (\<lambda>k'. if k' \<in> set (seen @ [k]) then Some (class_of_style (seen @ [k]) k') else None)"
    using assms cls by (auto simp: numbered_def class_of_style_snoc fun_eq_iff)
  moreover have "map (css_rule (seen @ [k])) (first_seen seen) = map (css_rule seen) (first_seen seen)"
    by (rule map_cong) (simp_all add: css_rule_def class_of_style_snoc set_first_seen)
  moreover have "css_rule (seen @ [k]) k = ''.'' @ (''i-style-'' @ str_nat (counter st)) @ '' { '' @ k @ '' }''"
    by (simp only: css_rule_def cls)
  ultimately show ?thesis using assms False st
    by (simp add: numbered_def new_style_def first_seen_snoc Let_def)
qed

lemma style_element_result:
  assumes "style_element p (st, t) = Inr (st1, t1)" and "numbered seen st"
  shows "(key_at t p = [] \<and> st1 = st \<and> t1 = t) \<or>
         (\<exists>k a. key_at t p = [k] \<and> attrs_at p t = Some a \<and> st1 = new_style st k \<and>
                t1 = set_attrs p (restyle a (class_of_style (seen @ [k]) k)) t)"
proof (cases "attrs_at p t")
  case None
  with assms(1) show ?thesis by (simp add: style_element_def key_at_def inline_style_def)
next
  case (Some a)
  show ?thesis
  proof (cases "map_of a ''style''")
    case None
    with Some assms(1) show ?thesis
      by (simp add: style_element_def key_at_def inline_style_def get_attr_def strip_def)
  next
    case (Some v)
    note style = this
    show ?thesis
    proof (cases v)
      case (StrList l)
      with style \<open>attrs_at p t = Some a\<close> assms(1) show ?thesis
        by (simp add: style_element_def get_attr_def)
    next
      case (Str s)
      show ?thesis
      proof (cases "strip s = []")
        case True
        with Str style \<open>attrs_at p t = Some a\<close> assms(1) show ?thesis
          by (simp add: style_element_def key_at_def inline_style_def get_attr_def)
      next
        case False
        let ?k = "strip s"
        have key: "key_at t p = [?k]"
          using False Str style \<open>attrs_at p t = Some a\<close> by (simp add: key_at_def inline_style_def)
        have look: "style_map (new_style st ?k) ?k = Some (class_of_style (seen @ [?k]) ?k)"
          using numbered_new_style [OF assms(2), of ?k] by (simp add: numbered_def)
        from assms(1) False Str style \<open>attrs_at p t = Some a\<close> look
        have "st1 = new_style st ?k \<and> t1 = set_attrs p (restyle a (class_of_style (seen @ [?k]) ?k)) t"
          by (auto simp: style_element_def get_attr_def restyle_def Let_def split: attr_value.splits option.splits)
        with key \<open>attrs_at p t = Some a\<close> show ?thesis by blast
      qed
    qed
  qed
qed

lemma key_at_cong: "attrs_at q t1 = attrs_at q t \<Longrightarrow> key_at t1 q = key_at t q"
  by (simp add: key_at_def inline_style_def)

lemma style_loop_result:
  assumes "style_loop ps (st, t) = Inr (st', t')" and "distinct ps" and "numbered seen st"
  shows "numbered (seen @ concat (map (key_at t) ps)) st' \<and>
         (\<forall>q. attrs_at q t' =
            (if q \<in> set ps then restyled (seen @ concat (map (key_at t) ps)) t q
             else attrs_at q t)) \<and>
         erase_attrs t' = erase_attrs t"
  using assms
proof (induction ps arbitrary: st t seen)
  case Nil
  then show ?case by simp
next
  case (Cons p ps)
  from Cons.prems(1) obtain st1 t1 where
    step: "style_element p (st, t) = Inr (st1, t1)" and
    rest: "style_loop ps (st1, t1) = Inr (st', t')"
    by (auto split: sum.splits)
  from Cons.prems(2) have dist: "distinct ps" and notin: "p \<notin> set ps" by simp_all
  from style_element_result [OF step Cons.prems(3)]
  show ?case
  proof
    assume A: "key_at t p = [] \<and> st1 = st \<and> t1 = t"
    with rest have "style_loop ps (st, t) = Inr (st', t')" by simp
    from Cons.IH [OF this dist Cons.prems(3)] A notin show ?thesis
      by (auto simp: restyled_def split: option.splits)
  next
    assume "\<exists>k a. key_at t p = [k] \<and> attrs_at p t = Some a \<and> st1 = new_style st k \<and>
                t1 = set_attrs p (restyle a (class_of_style (seen @ [k]) k)) t"
    then obtain k a where
      key: "key_at t p = [k]" and a: "attrs_at p t = Some a" and
      st1: "st1 = new_style st k" and
      t1: "t1 = set_attrs p (restyle a (class_of_style (seen @ [k]) k)) t"
      by blast
    have other: "attrs_at q t1 = attrs_at q t" if "q \<noteq> p" for q
      using that by (simp add: t1 attrs_at_set_attrs)
    have here: "attrs_at p t1 = Some (restyle a (class_of_style (seen @ [k]) k))"
      by (simp add: t1 attrs_at_set_attrs a)
    have keys: "map (key_at t1) ps = map (key_at t) ps"
      using notin by (intro map_cong refl key_at_cong other) auto
    let ?K = "seen @ concat (map (key_at t) (p # ps))"
    have K: "(seen @ [k]) @ concat (map (key_at t1) ps) = ?K"
      by (simp add: keys key)
    have num: "numbered (seen @ [k]) st1"
      unfolding st1 by (rule numbered_new_style [OF Cons.prems(3)])
    from Cons.IH [OF rest dist num]
    have IH1: "numbered ?K st'"
      and IH2: "\<And>q. attrs_at q t' = (if q \<in> set ps then restyled ?K t1 q else attrs_at q t1)"
      and IH3: "erase_attrs t' = erase_attrs t1"
      unfolding K by blast+
    have "class_of_style ?K k = class_of_style (seen @ [k]) k"
      using class_of_style_append [of k "seen @ [k]" "concat (map (key_at t1) ps)"]
      unfolding K by simp
    with here a key have at_p: "attrs_at p t' = restyled ?K t p"
      using notin by (simp add: IH2 restyled_def)
    have at_q: "attrs_at q t' = restyled ?K t q" if "q \<in> set ps" for q
    proof -
      from that notin have "q \<noteq> p" by auto
      then have o: "attrs_at q t1 = attrs_at q t" by (rule other)
      then have "key_at t1 q = key_at t q" by (rule key_at_cong)
      with o have "restyled ?K t1 q = restyled ?K t q"
        by (simp only: restyled_def)
      with that show ?thesis by (simp add: IH2)
    qed
    have at_r: "attrs_at q t' = attrs_at q t" if "q \<notin> set (p # ps)" for q
      using that by (simp add: IH2 other)
    have "erase_attrs t' = erase_attrs t"
      by (simp add: IH3 t1 erase_attrs_set_attrs)
    with IH1 at_p at_q at_r show ?thesis by auto
  qed
qed

lemma numbered_initial: "numbered [] \<lparr>style_map = Map.empty, css_rules = [], counter = 1\<rparr>"
  by (simp add: numbered_def first_seen_def)

lemma distinct_find_all_style: "distinct (find_all_style soup)"
  by (simp add: find_all_style_def distinct_descendants)

lemma concat_map_filter_keys:
  "(\<And>x. x \<in> set xs \<Longrightarrow> \<not> P x \<Longrightarrow> f x = []) \<Longrightarrow>
     concat (map f (filter P xs)) = concat (map f xs)"
  by (induction xs) auto

lemma style_keys_find_all: "concat (map (key_at soup) (find_all_style soup)) = style_keys soup"
  unfolding style_keys_def find_all_style_def
  by (rule concat_map_filter_keys)
     (auto simp: key_at_def inline_style_def split: option.splits)

lemma process_styles_result:
  assumes "process_styles soup = Inr (css, soup')"
  shows "css = str_join [CHR 0x0A] (map (css_rule (style_keys soup)) (first_seen (style_keys soup)))"
    and "attrs_at q soup' =
           (if q \<in> set (find_all_style soup) then restyled (style_keys soup) soup q
            else attrs_at q soup)"
    and "erase_attrs soup' = erase_attrs soup"
proof -
  from assms obtain st where
    loop: "style_loop (find_all_style soup)
             (\<lparr>style_map = Map.empty, css_rules = [], counter = 1\<rparr>, soup) = Inr (st, soup')"
    and css: "css = str_join [CHR 0x0A] (css_rules st)"
    by (auto simp: process_styles_def split: sum.splits)
  from style_loop_result [OF loop distinct_find_all_style numbered_initial]
  have "numbered (style_keys soup) st"
    and "\<And>q. attrs_at q soup' =
           (if q \<in> set (find_all_style soup) then restyled (style_keys soup) soup q
            else attrs_at q soup)"
    and "erase_attrs soup' = erase_attrs soup"
    by (simp_all add: style_keys_find_all)
  then show "css = str_join [CHR 0x0A] (map (css_rule (style_keys soup)) (first_seen (style_keys soup)))"
    and "attrs_at q soup' =
           (if q \<in> set (find_all_style soup) then restyled (style_keys soup) soup q
            else attrs_at q soup)"
    and "erase_attrs soup' = erase_attrs soup"
    using css by (simp_all add: numbered_def)
qed

lemma str_nat_nonempty: "str_nat n \<noteq> []"
  by (subst str_nat.simps) simp

lemma digit_inj:
  assumes "char_of (48 + a) = char_of (48 + (b::nat))" "a < 10" "b < 10"
  shows "a = b"
proof -
  from assms(1) have "(of_char (char_of (48 + a)) :: nat) = of_char (char_of (48 + b))" by simp
  with assms(2,3) show ?thesis by simp
qed

lemma str_nat_inj: "str_nat n = str_nat m \<Longrightarrow> n = m"
proof (induction n arbitrary: m rule: str_nat.induct)
  case (1 n)
  show ?case
  proof (cases "n < 10")
    case True
    then have n: "str_nat n = [char_of (48 + n)]" by (subst str_nat.simps) simp
    show ?thesis
    proof (cases "m < 10")
      case True
      then have "str_nat m = [char_of (48 + m)]" by (subst str_nat.simps) simp
      with n "1.prems" \<open>n < 10\<close> True show ?thesis by (auto dest: digit_inj)
    next
      case False
      then have "str_nat m = str_nat (m div 10) @ [char_of (48 + m mod 10)]"
        by (subst str_nat.simps) simp
      with n "1.prems" str_nat_nonempty [of "m div 10"] show ?thesis by (cases "str_nat (m div 10)") auto
    qed
  next
    case False
    then have n: "str_nat n = str_nat (n div 10) @ [char_of (48 + n mod 10)]"
      by (subst str_nat.simps) simp
    show ?thesis
    proof (cases "m < 10")
      case True
      then have "str_nat m = [char_of (48 + m)]" by (subst str_nat.simps) simp
      with n "1.prems" str_nat_nonempty [of "n div 10"] show ?thesis by (cases "str_nat (n div 10)") auto
    next
      case m: False
      then have "str_nat m = str_nat (m div 10) @ [char_of (48 + m mod 10)]"
        by (subst str_nat.simps) simp
      with n "1.prems" have a: "str_nat (n div 10) = str_nat (m div 10)"
        and b: "char_of (48 + n mod 10) = char_of (48 + m mod 10)" by auto
      from "1.IH" [OF False a] have "n div 10 = m div 10" .
      moreover from b have "n mod 10 = m mod 10" by (rule digit_inj) simp_all
      ultimately show ?thesis by (metis div_mult_mod_eq)
    qed
  qed
qed

lemma index_inj:
  assumes "length (takeWhile (\<lambda>x. x \<noteq> k) xs) = length (takeWhile (\<lambda>x. x \<noteq> k') xs)"
    and "k \<in> set xs" and "k' \<in> set xs"
  shows "k = k'"
proof -
  let ?n = "length (takeWhile (\<lambda>x. x \<noteq> k) xs)"
  from assms(2) have "?n < length xs" by (rule length_takeWhile_less)
  then have "\<not> (xs ! ?n \<noteq> k)" by (rule nth_length_takeWhile)
  moreover from assms(3) have "length (takeWhile (\<lambda>x. x \<noteq> k') xs) < length xs"
    by (rule length_takeWhile_less)
  then have "\<not> (xs ! length (takeWhile (\<lambda>x. x \<noteq> k') xs) \<noteq> k')" by (rule nth_length_takeWhile)
  ultimately show ?thesis using assms(1) by simp
qed

lemma class_of_style_inj:
  assumes "class_of_style keys k = class_of_style keys k'" and "k \<in> set keys" and "k' \<in> set keys"
  shows "k = k'"
proof -
  from assms(1) have "length (takeWhile (\<lambda>x. x \<noteq> k) (first_seen keys)) =
      length (takeWhile (\<lambda>x. x \<noteq> k') (first_seen keys))"
    by (auto simp: class_of_style_def dest: str_nat_inj)
  then show ?thesis using assms(2,3) by (intro index_inj [of k "first_seen keys" k']) (simp_all add: set_first_seen)
qed

lemma map_of_restyle_class:
  "map_of (restyle a c) ''class'' =
     Some (StrList ((case get_attr a ''class'' (StrList []) of
                       StrList classes \<Rightarrow> classes | Str x \<Rightarrow> []) @ [c]))"
  by (simp add: restyle_def delete_conv' update_conv')

lemma key_at_in_style_keys:
  "p \<in> set (descendants soup) \<Longrightarrow> key_at soup p = [k] \<Longrightarrow> k \<in> set (style_keys soup)"
  by (force simp: style_keys_def)

lemma generated_class_result:
  assumes "process_styles soup = Inr (css, soup')"
    and "inline_style soup p = Some style" and "p \<in> set (descendants soup)"
    and "strip style \<noteq> []"
  shows "generated_class soup' p = Some (class_of_style (style_keys soup) (strip style))"
proof -
  from assms(2) obtain a where a: "attrs_at p soup = Some a" and
    st: "map_of a ''style'' = Some (Str style)"
    by (auto simp: inline_style_def split: option.splits attr_value.splits)
  with assms(3) have "p \<in> set (find_all_style soup)" by (simp add: find_all_style_def)
  moreover from assms(2,4) have "key_at soup p = [strip style]" by (simp add: key_at_def)
  ultimately have "attrs_at p soup' =
      Some (restyle a (class_of_style (style_keys soup) (strip style)))"
    using process_styles_result(2) [OF assms(1), of p] a by (simp add: restyled_def)
  then show ?thesis by (simp add: generated_class_def map_of_restyle_class)
qed

text \<open>
  C4 (as the code has it). Within one run of the style pass, two elements whose inline
  style strings are equal after trimming, and not empty then, receive the same class, and
  two elements whose trimmed style strings differ never receive the same class; so two
  elements with the same style string receive the same class. The class of a style is
  \<open>i-style-N\<close>, where the trimmed style was the \<open>N\<close>th different one to be seen in document
  order.
\<close>

theorem process_styles_classes:
  assumes "process_styles soup = Inr (css, soup')"
    and "p \<in> set (descendants soup)" and "q \<in> set (descendants soup)"
    and "inline_style soup p = Some sp" and "inline_style soup q = Some sq"
    and "strip sp \<noteq> []" and "strip sq \<noteq> []"
  shows "generated_class soup' p = Some (class_of_style (style_keys soup) (strip sp)) \<and>
         generated_class soup' q = Some (class_of_style (style_keys soup) (strip sq)) \<and>
         (generated_class soup' p = generated_class soup' q \<longleftrightarrow> strip sp = strip sq) \<and>
         (sp = sq \<longrightarrow> generated_class soup' p = generated_class soup' q)"
proof -
  have p: "generated_class soup' p = Some (class_of_style (style_keys soup) (strip sp))"
    using assms(1,4,2,6) by (rule generated_class_result)
  have q: "generated_class soup' q = Some (class_of_style (style_keys soup) (strip sq))"
    using assms(1,5,3,7) by (rule generated_class_result)
  have "strip sp \<in> set (style_keys soup)"
    using assms(2,4,6) by (intro key_at_in_style_keys [of p]) (simp_all add: key_at_def)
  moreover have "strip sq \<in> set (style_keys soup)"
    using assms(3,5,7) by (intro key_at_in_style_keys [of q]) (simp_all add: key_at_def)
  ultimately have "class_of_style (style_keys soup) (strip sp) =
      class_of_style (style_keys soup) (strip sq) \<longleftrightarrow> strip sp = strip sq"
    by (auto dest: class_of_style_inj)
  with p q show ?thesis by auto
qed

lemma process_styles_example:
  "process_styles styles_example =
     Inr (''.i-style-1 { color:red }\<newline>.i-style-2 { w:1 }'', styles_example_result)"
  by code_simp

lemma styles_example_paths: "[0, 0, 0] \<in> set (descendants styles_example)" "[0, 0, 1] \<in> set (descendants styles_example)"
  "[0, 0, 2] \<in> set (descendants styles_example)"
  by (simp_all add: styles_example_def)

lemma styles_example_styles: "inline_style styles_example [0, 0, 0] = Some ''color:red''"
  "inline_style styles_example [0, 0, 1] = Some '' color:red ''"
  "inline_style styles_example [0, 0, 2] = Some ''w:1''"
  by (simp_all add: styles_example_def inline_style_def attrs_at_def)

lemma styles_example_classes: "generated_class styles_example_result [0, 0, 0] = Some ''i-style-1''"
  "generated_class styles_example_result [0, 0, 1] = Some ''i-style-1''"
  "generated_class styles_example_result [0, 0, 2] = Some ''i-style-2''"
  by (simp_all add: styles_example_result_def generated_class_def attrs_at_def)

theorem process_styles_classes_witness:
  "process_styles styles_example =
     Inr (''.i-style-1 { color:red }\<newline>.i-style-2 { w:1 }'', styles_example_result) \<and>
   generated_class styles_example_result [0, 0, 0] = Some ''i-style-1'' \<and>
   generated_class styles_example_result [0, 0, 2] = Some ''i-style-2'' \<and>
   generated_class styles_example_result [0, 0, 0] \<noteq> generated_class styles_example_result [0, 0, 2]"
proof -
  have 1: "strip ''color:red'' \<noteq> []" and 2: "strip ''w:1'' \<noteq> []"
    by (simp_all add: strip_def isspace_def)
  have 3: "class_of_style (style_keys styles_example) (strip ''color:red'') = ''i-style-1''"
    by code_simp
  have 4: "class_of_style (style_keys styles_example) (strip ''w:1'') = ''i-style-2''"
    by code_simp
  have 5: "strip ''color:red'' \<noteq> strip ''w:1''"
    by (simp add: strip_def isspace_def)
  from process_styles_classes [OF process_styles_example styles_example_paths(1) styles_example_paths(3)
      styles_example_styles(1) styles_example_styles(3) 1 2]
  show ?thesis unfolding 3 4 using process_styles_example 5 by simp
qed

text \<open>
  The claim C4 as it is written fails: the style strings \<open>color:red\<close> and
  \<open> color:red \<close> differ, and their elements receive the same class \<open>i-style-1\<close>,
  because the key of the style map is the trimmed string.
\<close>

theorem process_styles_trimmed_collision:
  "process_styles styles_example =
     Inr (''.i-style-1 { color:red }\<newline>.i-style-2 { w:1 }'', styles_example_result) \<and>
   inline_style styles_example [0, 0, 0] = Some ''color:red'' \<and>
   inline_style styles_example [0, 0, 1] = Some '' color:red '' \<and>
   ''color:red'' \<noteq> '' color:red '' \<and>
   generated_class styles_example_result [0, 0, 0] = Some ''i-style-1'' \<and>
   generated_class styles_example_result [0, 0, 1] = Some ''i-style-1''"
  using process_styles_example styles_example_styles styles_example_classes by simp

lemma style_element_skip:
  assumes "\<forall>a v. attrs_at p soup = Some a \<longrightarrow> map_of a ''style'' = Some v \<longrightarrow>
             (\<exists>s. v = Str s \<and> strip s = [])"
  shows "style_element p (st, soup) = Inr (st, soup)"
proof (cases "attrs_at p soup")
  case None
  then show ?thesis by (simp add: style_element_def)
next
  case (Some a)
  show ?thesis
  proof (cases "map_of a ''style''")
    case None
    with Some show ?thesis by (simp add: style_element_def get_attr_def strip_def)
  next
    case (Some v)
    with assms \<open>attrs_at p soup = Some a\<close> obtain s where "v = Str s" "strip s = []" by blast
    with Some \<open>attrs_at p soup = Some a\<close> show ?thesis
      by (simp add: style_element_def get_attr_def)
  qed
qed

lemma style_loop_skip:
  "\<forall>p \<in> set ps. style_element p (st, soup) = Inr (st, soup) \<Longrightarrow>
     style_loop ps (st, soup) = Inr (st, soup)"
  by (induction ps) simp_all

text \<open>
  C8. On a tree in which every style attribute is empty, or blank, the style pass returns
  the empty stylesheet and the tree as it was: no class is created and no element changes,
  whatever classes the elements carry.
\<close>

theorem process_styles_without_styles:
  assumes "\<forall>p \<in> set (descendants soup). \<forall>a v.
             attrs_at p soup = Some a \<longrightarrow> map_of a ''style'' = Some v \<longrightarrow>
             (\<exists>s. v = Str s \<and> strip s = [])"
  shows "process_styles soup = Inr ([], soup)"
proof -
  have "\<forall>p \<in> set (find_all_style soup).
      style_element p (\<lparr>style_map = Map.empty, css_rules = [], counter = 1\<rparr>, soup) =
        Inr (\<lparr>style_map = Map.empty, css_rules = [], counter = 1\<rparr>, soup)"
    using assms by (auto simp: find_all_style_def intro!: style_element_skip)
  then have "style_loop (find_all_style soup)
      (\<lparr>style_map = Map.empty, css_rules = [], counter = 1\<rparr>, soup) =
        Inr (\<lparr>style_map = Map.empty, css_rules = [], counter = 1\<rparr>, soup)"
    by (rule style_loop_skip)
  then show ?thesis by (simp add: process_styles_def)
qed

theorem process_styles_without_styles_witness:
  "process_styles classes_example = Inr ([], classes_example)"
proof -
  have "\<forall>p \<in> set (descendants classes_example). \<forall>a v.
             attrs_at p classes_example = Some a \<longrightarrow> map_of a ''style'' = Some v \<longrightarrow>
             (\<exists>s. v = Str s \<and> strip s = [])"
    by (simp add: classes_example_def attrs_at_def strip_def isspace_def)
  then show ?thesis by (rule process_styles_without_styles)
qed

section \<open>Properties of the reference pass\<close>

lemma node_at_Tag:
  "node_at p soup = Some (Tag t a cs) \<Longrightarrow> attrs_at p soup = Some a \<and> name_at p soup = Some t"
  by (simp add: attrs_at_def name_at_def)

lemma node_at_not_Tag:
  "\<forall>t a cs. node_at p soup \<noteq> Some (Tag t a cs) \<Longrightarrow> attrs_at p soup = None"
  by (auto simp: attrs_at_def split: option.splits node.splits)

lemma update_reference_result:
  assumes "update_reference e rm out p soup = Inr soup1"
  shows "attrs_at p soup1 = rewritten e rm out soup p"
    and "q \<noteq> p \<Longrightarrow> attrs_at q soup1 = attrs_at q soup"
    and "name_at q soup1 = name_at q soup"
    and "erase_attrs soup1 = erase_attrs soup"
proof -
  have "attrs_at p soup1 = rewritten e rm out soup p \<and>
        (q \<noteq> p \<longrightarrow> attrs_at q soup1 = attrs_at q soup) \<and>
        name_at q soup1 = name_at q soup \<and> erase_attrs soup1 = erase_attrs soup"
  proof (cases "\<exists>t a cs. node_at p soup = Some (Tag t a cs)")
    case False
    then have "attrs_at p soup = None" by (intro node_at_not_Tag) simp
    moreover from False assms have "soup1 = soup"
      by (auto simp: update_reference_def split: option.splits node.splits)
    ultimately show ?thesis by (simp add: rewritten_def)
  next
    case True
    then obtain t a cs where n: "node_at p soup = Some (Tag t a cs)" by blast
    then have a: "attrs_at p soup = Some a" and t: "name_at p soup = Some t"
      by (simp_all add: node_at_Tag)
    show ?thesis
    proof (cases "get_attr a (ref_attr t) (Str [])")
      case (StrList l)
      with n assms show ?thesis by (simp add: update_reference_def)
    next
      case (Str v)
      show ?thesis
      proof (cases "rm v")
        case None
        with Str n assms have "soup1 = soup" by (simp add: update_reference_def)
        with None Str a t show ?thesis by (simp add: rewritten_def)
      next
        case (Some rp)
        show ?thesis
        proof (cases "rp = []")
          case True
          with Some Str n assms have "soup1 = soup" by (simp add: update_reference_def)
          with True Some Str a t show ?thesis by (simp add: rewritten_def)
        next
          case False
          with Some Str n assms have
            "soup1 = set_attrs p (AList.update (ref_attr t) (Str (relpath e rp (dirname out))) a) soup"
            by (simp add: update_reference_def)
          with False Some Str a t show ?thesis
            by (simp add: rewritten_def attrs_at_set_attrs name_at_set_attrs erase_attrs_set_attrs)
        qed
      qed
    qed
  qed
  then show "attrs_at p soup1 = rewritten e rm out soup p"
    and "q \<noteq> p \<Longrightarrow> attrs_at q soup1 = attrs_at q soup"
    and "name_at q soup1 = name_at q soup"
    and "erase_attrs soup1 = erase_attrs soup"
    by simp_all
qed

lemma reference_loop_result:
  assumes "reference_loop e rm out ps soup = Inr soup'" and "distinct ps"
  shows "(\<forall>q. attrs_at q soup' =
            (if q \<in> set ps then rewritten e rm out soup q else attrs_at q soup)) \<and>
         (\<forall>q. name_at q soup' = name_at q soup) \<and>
         erase_attrs soup' = erase_attrs soup"
  using assms
proof (induction ps arbitrary: soup)
  case Nil
  then show ?case by simp
next
  case (Cons p ps)
  from Cons.prems(1) obtain soup1 where
    step: "update_reference e rm out p soup = Inr soup1" and
    rest: "reference_loop e rm out ps soup1 = Inr soup'"
    by (auto split: sum.splits)
  from Cons.prems(2) have dist: "distinct ps" and notin: "p \<notin> set ps" by simp_all
  note s = update_reference_result [OF step]
  from Cons.IH [OF rest dist]
  have IH1: "\<And>q. attrs_at q soup' =
      (if q \<in> set ps then rewritten e rm out soup1 q else attrs_at q soup1)"
    and IH2: "\<And>q. name_at q soup' = name_at q soup1"
    and IH3: "erase_attrs soup' = erase_attrs soup1"
    by blast+
  have same: "rewritten e rm out soup1 q = rewritten e rm out soup q" if "q \<noteq> p" for q
    using s(2) [OF that] s(3) [of q] by (simp only: rewritten_def)
  have "attrs_at q soup' =
      (if q \<in> set (p # ps) then rewritten e rm out soup q else attrs_at q soup)" for q
  proof (cases "q = p")
    case True
    with notin show ?thesis by (simp add: IH1 s(1))
  next
    case False
    then show ?thesis by (simp add: IH1 same s(2))
  qed
  moreover have "name_at q soup' = name_at q soup" for q by (simp add: IH2 s(3))
  moreover have "erase_attrs soup' = erase_attrs soup" by (simp add: IH3 s(4))
  ultimately show ?case by blast
qed

lemma update_references_result:
  assumes "update_references e soup resource_map output_path = Inr soup'"
  shows "erase_attrs soup' = erase_attrs soup \<and>
         (\<forall>p a. attrs_at p soup = Some a \<longrightarrow>
            attrs_at p soup' = Some a \<or>
            (\<exists>t v resource_path.
               name_at p soup = Some t \<and> t \<in> {''img'', ''link'', ''script''} \<and>
               get_attr a (ref_attr t) (Str []) = Str v \<and>
               resource_map v = Some resource_path \<and>
               attrs_at p soup' =
                 Some (AList.update (ref_attr t)
                         (Str (relpath e resource_path (dirname output_path))) a))) \<and>
         (\<forall>p. attrs_at p soup = None \<longrightarrow> attrs_at p soup' = None)"
proof -
  from assms have loop:
    "reference_loop e resource_map output_path (find_all_refs soup) soup = Inr soup'"
    by (simp add: update_references_def)
  have dist: "distinct (find_all_refs soup)"
    by (simp add: find_all_refs_def distinct_descendants)
  note r = reference_loop_result [OF loop dist]
  have "attrs_at p soup' = Some a \<or>
            (\<exists>t v resource_path.
               name_at p soup = Some t \<and> t \<in> {''img'', ''link'', ''script''} \<and>
               get_attr a (ref_attr t) (Str []) = Str v \<and>
               resource_map v = Some resource_path \<and>
               attrs_at p soup' =
                 Some (AList.update (ref_attr t)
                         (Str (relpath e resource_path (dirname output_path))) a))"
    if a: "attrs_at p soup = Some a" for p a
  proof (cases "p \<in> set (find_all_refs soup)")
    case False
    with r a show ?thesis by simp
  next
    case True
    then obtain t where t: "name_at p soup = Some t" "t \<in> {''img'', ''link'', ''script''}"
      by (auto simp: find_all_refs_def split: option.splits)
    from True r have "attrs_at p soup' = rewritten e resource_map output_path soup p" by simp
    with a t show ?thesis
      by (auto simp: rewritten_def split: attr_value.splits option.splits if_splits)
  qed
  moreover have "attrs_at p soup' = None" if "attrs_at p soup = None" for p
    using r that by (simp add: rewritten_def)
  ultimately show ?thesis using r by blast
qed


lemma update_references_example:
  "update_references env_example refs_example resource_map_example ''x.html'' =
     Inr refs_example_result"
  by code_simp

text \<open>
  The reference pass leaves the shape, the names and the text of the tree as they are, and
  it changes the value of an attribute only where the element is an \<open>img\<close>, \<open>link\<close> or
  \<open>script\<close>, the attribute is the one read for that element (\<open>src\<close> for \<open>img\<close>, \<open>href\<close>
  for the other two) and the value read, the empty string when the attribute is missing,
  is a key of the resource map.
\<close>

lemma update_references_frame:
  assumes "update_references e soup resource_map output_path = Inr soup'"
  shows "erase_attrs soup' = erase_attrs soup \<and>
         (\<forall>p. (attrs_at p soup' = None) = (attrs_at p soup = None)) \<and>
         (\<forall>p a a' k.
            attrs_at p soup = Some a \<longrightarrow> attrs_at p soup' = Some a' \<longrightarrow>
            map_of a' k \<noteq> map_of a k \<longrightarrow>
            (\<exists>t v. name_at p soup = Some t \<and> t \<in> {''img'', ''link'', ''script''} \<and>
                   k = ref_attr t \<and> get_attr a k (Str []) = Str v \<and> v \<in> dom resource_map))"
proof -
  note r = update_references_result [OF assms]
  have "\<exists>t v. name_at p soup = Some t \<and> t \<in> {''img'', ''link'', ''script''} \<and>
                   k = ref_attr t \<and> get_attr a k (Str []) = Str v \<and> v \<in> dom resource_map"
    if a: "attrs_at p soup = Some a" and a': "attrs_at p soup' = Some a'"
      and k: "map_of a' k \<noteq> map_of a k" for p a a' k
  proof -
    from r a have "attrs_at p soup' = Some a \<or>
            (\<exists>t v resource_path.
               name_at p soup = Some t \<and> t \<in> {''img'', ''link'', ''script''} \<and>
               get_attr a (ref_attr t) (Str []) = Str v \<and>
               resource_map v = Some resource_path \<and>
               attrs_at p soup' =
                 Some (AList.update (ref_attr t)
                         (Str (relpath e resource_path (dirname output_path))) a))"
      by blast
    then show ?thesis
    proof
      assume "attrs_at p soup' = Some a"
      with a' k show ?thesis by simp
    next
      assume "\<exists>t v resource_path.
               name_at p soup = Some t \<and> t \<in> {''img'', ''link'', ''script''} \<and>
               get_attr a (ref_attr t) (Str []) = Str v \<and>
               resource_map v = Some resource_path \<and>
               attrs_at p soup' =
                 Some (AList.update (ref_attr t)
                         (Str (relpath e resource_path (dirname output_path))) a)"
      then obtain t v resource_path where
        t: "name_at p soup = Some t" "t \<in> {''img'', ''link'', ''script''}" and
        v: "get_attr a (ref_attr t) (Str []) = Str v" "resource_map v = Some resource_path" and
        u: "attrs_at p soup' =
                 Some (AList.update (ref_attr t)
                         (Str (relpath e resource_path (dirname output_path))) a)"
        by blast
      from u a' k have "k = ref_attr t"
        by (cases "k = ref_attr t") (auto simp: update_conv')
      with t v show ?thesis by auto
    qed
  qed
  moreover have "(attrs_at p soup' = None) = (attrs_at p soup = None)" for p
  proof (cases "attrs_at p soup")
    case None
    with r show ?thesis by simp
  next
    case (Some a)
    with r have "attrs_at p soup' \<noteq> None" by (metis option.distinct(1))
    with Some show ?thesis by simp
  qed
  ultimately show ?thesis using r by blast
qed

lemma update_references_frame_example:
  "update_references env_example refs_example resource_map_example ''x.html'' =
     Inr refs_example_result \<and>
   erase_attrs refs_example_result = erase_attrs refs_example \<and>
   attrs_at [0, 1, 0] refs_example = Some [(''src'', Str ''a.jpg''), (''alt'', Str ''a.jpg'')] \<and>
   attrs_at [0, 1, 0] refs_example_result =
     Some [(''src'', Str ''images/a.jpg''), (''alt'', Str ''a.jpg'')] \<and>
   (\<exists>t v. name_at [0, 1, 0] refs_example = Some t \<and> t \<in> {''img'', ''link'', ''script''} \<and>
          ''src'' = ref_attr t \<and>
          get_attr [(''src'', Str ''a.jpg''), (''alt'', Str ''a.jpg'')] ''src'' (Str []) = Str v \<and>
          v \<in> dom resource_map_example)"
proof -
  have a: "attrs_at [0, 1, 0] refs_example = Some [(''src'', Str ''a.jpg''), (''alt'', Str ''a.jpg'')]"
    by (simp add: refs_example_def attrs_at_def)
  have a': "attrs_at [0, 1, 0] refs_example_result =
     Some [(''src'', Str ''images/a.jpg''), (''alt'', Str ''a.jpg'')]"
    by (simp add: refs_example_result_def attrs_at_def)
  have k: "map_of [(''src'', Str ''images/a.jpg''), (''alt'', Str ''a.jpg'')] ''src'' \<noteq>
      map_of [(''src'', Str ''a.jpg''), (''alt'', Str ''a.jpg'')] ''src''"
    by simp
  from update_references_frame [OF update_references_example] a a' k
  show ?thesis using update_references_example by blast
qed

text \<open>An attribute that has changed was there before with a value that is a key of the
  resource map, or it was missing and the empty string is a key. With a map that does not
  hold the empty string the pass creates no attribute, and every change is at a reference
  to a resource of the map.\<close>

lemma update_references_frame_cases:
  assumes "update_references e soup resource_map output_path = Inr soup'"
  shows "erase_attrs soup' = erase_attrs soup \<and>
         (\<forall>p. (attrs_at p soup' = None) = (attrs_at p soup = None)) \<and>
         (\<forall>p a a' k.
            attrs_at p soup = Some a \<longrightarrow> attrs_at p soup' = Some a' \<longrightarrow>
            map_of a' k \<noteq> map_of a k \<longrightarrow>
            (\<exists>t. name_at p soup = Some t \<and> t \<in> {''img'', ''link'', ''script''} \<and>
                 k = ref_attr t \<and>
                 ((\<exists>v. map_of a k = Some (Str v) \<and> v \<in> dom resource_map) \<or>
                  map_of a k = None \<and> [] \<in> dom resource_map)))"
proof -
  note r = update_references_frame [OF assms]
  have "\<exists>t. name_at p soup = Some t \<and> t \<in> {''img'', ''link'', ''script''} \<and>
                 k = ref_attr t \<and>
                 ((\<exists>v. map_of a k = Some (Str v) \<and> v \<in> dom resource_map) \<or>
                  map_of a k = None \<and> [] \<in> dom resource_map)"
    if a: "attrs_at p soup = Some a" and a': "attrs_at p soup' = Some a'"
      and k: "map_of a' k \<noteq> map_of a k" for p a a' k
  proof -
    from r a a' k obtain t v where t: "name_at p soup = Some t"
      "t \<in> {''img'', ''link'', ''script''}" "k = ref_attr t"
      and v: "get_attr a k (Str []) = Str v" "v \<in> dom resource_map"
      by blast
    from v have "(\<exists>v. map_of a k = Some (Str v) \<and> v \<in> dom resource_map) \<or>
                  map_of a k = None \<and> [] \<in> dom resource_map"
      by (auto simp: get_attr_def split: option.splits)
    with t show ?thesis by blast
  qed
  with r show ?thesis by blast
qed


lemma update_references_frame_keys:
  assumes "update_references e soup resource_map output_path = Inr soup'"
    and "[] \<notin> dom resource_map"
    and "attrs_at p soup = Some a" and "attrs_at p soup' = Some a'"
    and "map_of a' k \<noteq> map_of a k"
  shows "\<exists>t v. name_at p soup = Some t \<and> t \<in> {''img'', ''link'', ''script''} \<and>
           k = ref_attr t \<and> map_of a k = Some (Str v) \<and> v \<in> dom resource_map"
  using update_references_frame_cases [OF assms(1)] assms(2-5) by blast

text \<open>
  C5 fails on the code where the empty string is a key of the resource map. The pass reads
  a missing attribute as the empty string, finds the path of that key and sets the
  attribute: an element that had no \<open>src\<close> or \<open>href\<close> has one after the pass. The empty
  string becomes a key when a resource part has a \<open>Content-Location\<close> header without a
  value, as in \<open>unnamed.mht\<close>: the part is extracted to \<open>images/.png\<close>, and the image of
  the document, which has only an \<open>alt\<close> attribute, gets the source \<open>images/.png\<close>. With a
  map that does not hold the empty string the pass changes only references to resources
  of the map (\<open>update_references_frame_keys\<close>).
\<close>

theorem reference_created_for_empty_location:
  "prepare env_example unnamed_document =
     Inr (split_markers ''X'' unnamed_document, [], unnamed_soup) \<and>
   map task_location (resource_tasks (split_markers ''X'' unnamed_document)) = [Some []] \<and>
   snd (run_tasks env_example empty_filesystem ''images''
          (resource_tasks (split_markers ''X'' unnamed_document))) =
     [Some ([], ''images/.png'')] \<and>
   attrs_at [0, 1, 0] unnamed_soup = Some [(''alt'', Str ''x'')] \<and>
   update_references env_example unnamed_soup (collect [Some ([], ''images/.png'')]) ''x.html'' =
     Inr unnamed_result \<and>
   attrs_at [0, 1, 0] unnamed_result = Some [(''alt'', Str ''x''), (''src'', Str ''images/.png'')] \<and>
   snd (process env_example empty_filesystem ''unnamed.mht'' ''x.html'' ''images'') = Converted"
  by code_simp

section \<open>Properties of the splitter\<close>

text \<open>What the searches find: a substring; a blank line; a boundary declaration, which is
  \<open>boundary="\<close>, one or more characters other than the double quote, and a double
  quote.\<close>

lemma contains_iff: "contains sub s \<longleftrightarrow> (\<exists>pre post. s = pre @ sub @ post)"
proof (induction s)
  case Nil
  show ?case by auto
next
  case (Cons x xs)
  show ?case
  proof
    assume "contains sub (x # xs)"
    then consider "prefix sub (x # xs)" | "contains sub xs" by auto
    then show "\<exists>pre post. x # xs = pre @ sub @ post"
    proof cases
      case 1
      then obtain post where "x # xs = sub @ post" by (auto simp: prefix_def)
      then have "x # xs = [] @ sub @ post" by simp
      then show ?thesis by blast
    next
      case 2
      with Cons.IH obtain pre post where "xs = pre @ sub @ post" by blast
      then have "x # xs = (x # pre) @ sub @ post" by simp
      then show ?thesis by blast
    qed
  next
    assume "\<exists>pre post. x # xs = pre @ sub @ post"
    then obtain pre post where eq: "x # xs = pre @ sub @ post" by blast
    show "contains sub (x # xs)"
    proof (cases pre)
      case Nil
      with eq have "prefix sub (x # xs)" by (simp add: prefix_def)
      then show ?thesis by simp
    next
      case (Cons y pre')
      with eq have "xs = pre' @ sub @ post" by simp
      with Cons.IH have "contains sub xs" by blast
      then show ?thesis by simp
    qed
  qed
qed

lemma after_blank_line_None:
  "after_blank_line s = None \<longleftrightarrow>
     \<not> contains [CHR 0x0A, CHR 0x0A] s \<and> \<not> contains [CHR 0x0D, CHR 0x0A, CHR 0x0D, CHR 0x0A] s"
proof (induction s)
  case Nil
  show ?case by simp
next
  case (Cons c cs)
  show ?case
  proof (cases "prefix [CHR 0x0A, CHR 0x0A] (c # cs)")
    case True
    then show ?thesis by (simp only: after_blank_line.simps contains.simps if_True) simp
  next
    case False
    note nl = this
    show ?thesis
    proof (cases "prefix [CHR 0x0D, CHR 0x0A, CHR 0x0D, CHR 0x0A] (c # cs)")
      case True
      with nl show ?thesis by (simp only: after_blank_line.simps contains.simps if_True if_False) simp
    next
      case False
      with nl Cons.IH show ?thesis
        by (simp only: after_blank_line.simps contains.simps if_False simp_thms)
    qed
  qed
qed

lemma boundary_at_Some:
  "boundary_at s = Some token \<longleftrightarrow>
     token \<noteq> [] \<and> CHR 0x22 \<notin> set token \<and>
     (\<exists>post. s = ''boundary='' @ [CHR 0x22] @ token @ [CHR 0x22] @ post)"
proof
  assume a: "boundary_at s = Some token"
  then have p: "prefix (''boundary='' @ [CHR 0x22]) s"
    by (simp add: boundary_at_def split: if_splits)
  then obtain rest where s: "s = (''boundary='' @ [CHR 0x22]) @ rest" by (auto simp: prefix_def)
  then have rest: "drop 10 s = rest" by simp
  from a p rest have tok: "token = takeWhile (\<lambda>c. c \<noteq> CHR 0x22) rest" "token \<noteq> []"
    "length token < length rest"
    by (auto simp: boundary_at_def Let_def split: if_splits)
  have "rest = token @ dropWhile (\<lambda>c. c \<noteq> CHR 0x22) rest" by (simp add: tok(1))
  moreover have ne: "dropWhile (\<lambda>c. c \<noteq> CHR 0x22) rest \<noteq> []"
  proof
    assume "dropWhile (\<lambda>c. c \<noteq> CHR 0x22) rest = []"
    then have "takeWhile (\<lambda>c. c \<noteq> CHR 0x22) rest = rest"
      by (metis append_Nil2 takeWhile_dropWhile_id)
    with tok(1,3) show False by simp
  qed
  then have "\<not> hd (dropWhile (\<lambda>c. c \<noteq> CHR 0x22) rest) \<noteq> CHR 0x22"
    by (rule hd_dropWhile)
  with ne obtain post where "dropWhile (\<lambda>c. c \<noteq> CHR 0x22) rest = CHR 0x22 # post"
    by (cases "dropWhile (\<lambda>c. c \<noteq> CHR 0x22) rest") auto
  ultimately have "rest = token @ [CHR 0x22] @ post" by simp
  with s have "s = ''boundary='' @ [CHR 0x22] @ token @ [CHR 0x22] @ post" by simp
  moreover have "CHR 0x22 \<notin> set token" unfolding tok(1) by (auto dest: set_takeWhileD)
  ultimately show "token \<noteq> [] \<and> CHR 0x22 \<notin> set token \<and>
     (\<exists>post. s = ''boundary='' @ [CHR 0x22] @ token @ [CHR 0x22] @ post)"
    using tok(2) by blast
next
  assume "token \<noteq> [] \<and> CHR 0x22 \<notin> set token \<and>
     (\<exists>post. s = ''boundary='' @ [CHR 0x22] @ token @ [CHR 0x22] @ post)"
  then obtain post where t: "token \<noteq> []" "CHR 0x22 \<notin> set token"
    and s: "s = ''boundary='' @ [CHR 0x22] @ token @ [CHR 0x22] @ post" by blast
  from t(2) have "takeWhile (\<lambda>c. c \<noteq> CHR 0x22) (token @ CHR 0x22 # post) = token"
    by (induction token) auto
  with t(1) s show "boundary_at s = Some token"
    by (simp add: boundary_at_def)
qed

lemma search_boundary_Some:
  "search_boundary s = Some token \<Longrightarrow>
     token \<noteq> [] \<and> CHR 0x22 \<notin> set token \<and>
     (\<exists>pre post. s = pre @ ''boundary='' @ [CHR 0x22] @ token @ [CHR 0x22] @ post)"
proof (induction s)
  case Nil
  then show ?case by simp
next
  case (Cons c cs)
  show ?case
  proof (cases "boundary_at (c # cs)")
    case (Some b)
    with Cons.prems have "boundary_at (c # cs) = Some token" by simp
    then obtain post where "token \<noteq> []" "CHR 0x22 \<notin> set token"
      "c # cs = [] @ ''boundary='' @ [CHR 0x22] @ token @ [CHR 0x22] @ post"
      unfolding boundary_at_Some by auto
    then show ?thesis by blast
  next
    case None
    with Cons.prems have "search_boundary cs = Some token" by simp
    with Cons.IH obtain pre post where "token \<noteq> []" "CHR 0x22 \<notin> set token"
      "cs = pre @ ''boundary='' @ [CHR 0x22] @ token @ [CHR 0x22] @ post" by blast
    then have "c # cs = (c # pre) @ ''boundary='' @ [CHR 0x22] @ token @ [CHR 0x22] @ post"
      by simp
    with \<open>token \<noteq> []\<close> \<open>CHR 0x22 \<notin> set token\<close> show ?thesis by blast
  qed
qed

lemma search_boundary_None:
  assumes "search_boundary s = None"
  shows "\<not> (\<exists>pre token post. token \<noteq> [] \<and> CHR 0x22 \<notin> set token \<and>
              s = pre @ ''boundary='' @ [CHR 0x22] @ token @ [CHR 0x22] @ post)"
proof
  assume "\<exists>pre token post. token \<noteq> [] \<and> CHR 0x22 \<notin> set token \<and>
              s = pre @ ''boundary='' @ [CHR 0x22] @ token @ [CHR 0x22] @ post"
  then obtain pre token post where t: "token \<noteq> []" "CHR 0x22 \<notin> set token"
    and s: "s = pre @ ''boundary='' @ [CHR 0x22] @ token @ [CHR 0x22] @ post" by blast
  have "search_boundary (pre @ ''boundary='' @ [CHR 0x22] @ token @ [CHR 0x22] @ post) \<noteq> None"
  proof (induction pre)
    case Nil
    have "boundary_at (''boundary='' @ [CHR 0x22] @ token @ [CHR 0x22] @ post) = Some token"
      unfolding boundary_at_Some using t by blast
    then show ?case by simp
  next
    case (Cons c pre)
    then show ?case by (simp split: option.splits)
  qed
  with assms s show False by simp
qed

section \<open>Properties of the pipeline\<close>

lemma process_prepare_failure:
  "read_text e fs mht_path = Some content \<Longrightarrow> prepare e content = Inl r \<Longrightarrow>
     process e fs mht_path output_path resource_dir = (fs, Failed r)"
  by (simp add: process_def)

text \<open>
  Where the document can be read and holds no boundary declaration, or the split gives no
  part that contains the text \<open>Content-Type: text/html\<close>, or the first such part holds no
  blank line after which its body would start, \<open>process\<close> fails, with the error that names
  the case, and the file system is as it was before: no output file and no resource
  directory have been created. A failed conversion returns \<open>False\<close>. What the three
  searches find is said by \<open>search_boundary_Some\<close>, \<open>search_boundary_None\<close>, \<open>contains_iff\<close>
  and \<open>after_blank_line_None\<close>.
\<close>

lemma process_format_failure:
  assumes "read_text e fs mht_path = Some content"
  shows "(search_boundary content = None \<longrightarrow>
            process e fs mht_path output_path resource_dir = (fs, Failed No_boundary)) \<and>
         (\<forall>boundary parts.
            search_boundary content = Some boundary \<and>
            split_parts e boundary content = Some parts \<and>
            find (contains ''Content-Type: text/html'') parts = None \<longrightarrow>
            process e fs mht_path output_path resource_dir = (fs, Failed No_html)) \<and>
         (\<forall>boundary parts html_part.
            search_boundary content = Some boundary \<and>
            split_parts e boundary content = Some parts \<and>
            find (contains ''Content-Type: text/html'') parts = Some html_part \<and>
            html_match html_part = None \<longrightarrow>
            process e fs mht_path output_path resource_dir = (fs, Failed No_html_body)) \<and>
         (\<forall>r. \<not> returns (Failed r))"
proof -
  have 1: "process e fs mht_path output_path resource_dir = (fs, Failed No_boundary)"
    if "search_boundary content = None"
  proof -
    from that have "prepare e content = Inl No_boundary"
      by (simp add: prepare_def html_document_def)
    with assms show ?thesis by (rule process_prepare_failure)
  qed
  have 2: "process e fs mht_path output_path resource_dir = (fs, Failed No_html)"
    if "search_boundary content = Some boundary"
      and "split_parts e boundary content = Some parts"
      and "find (contains ''Content-Type: text/html'') parts = None" for boundary parts
  proof -
    from that have "prepare e content = Inl No_html"
      by (simp add: prepare_def html_document_def)
    with assms show ?thesis by (rule process_prepare_failure)
  qed
  have 3: "process e fs mht_path output_path resource_dir = (fs, Failed No_html_body)"
    if "search_boundary content = Some boundary"
      and "split_parts e boundary content = Some parts"
      and "find (contains ''Content-Type: text/html'') parts = Some html_part"
      and "html_match html_part = None" for boundary parts html_part
  proof -
    from that have "prepare e content = Inl No_html_body"
      by (simp add: prepare_def html_document_def)
    with assms show ?thesis by (rule process_prepare_failure)
  qed
  from 1 2 3 show ?thesis by (simp add: returns_def)
qed

lemma example_files:
  "read_text env_example fs ''none.mht'' = Some none_document"
  "read_text env_example fs ''plain.mht'' = Some plain_document"
  "read_text env_example fs ''headers.mht'' = Some headers_document"
  "read_text env_example fs ''comment.mht'' = Some comment_document"
  "read_text env_example fs ''twice.mht'' = Some twice_document"
  "read_text env_example fs ''nohead.mht'' = Some nohead_document"
  by (simp_all add: env_example_def)

lemma example_boundaries:
  "search_boundary none_document = None"
  "search_boundary plain_document = Some ''X''"
  "search_boundary headers_document = Some ''X''"
  "search_boundary comment_document = Some ''X''"
  "search_boundary twice_document = Some ''X''"
  "search_boundary nohead_document = Some ''X''"
  by code_simp+

lemma split_parts_plain:
  "split_parts e ''X'' content = Some (split_markers ''X'' content)"
  by (simp add: split_parts_def plain_boundary_def)

lemma process_format_failure_examples:
  "read_text env_example empty_filesystem ''none.mht'' = Some none_document \<and>
   search_boundary none_document = None \<and>
   process env_example empty_filesystem ''none.mht'' ''x.html'' ''images'' =
     (empty_filesystem, Failed No_boundary) \<and>
   read_text env_example empty_filesystem ''plain.mht'' = Some plain_document \<and>
   search_boundary plain_document = Some ''X'' \<and>
   find (contains ''Content-Type: text/html'') (split_markers ''X'' plain_document) = None \<and>
   process env_example empty_filesystem ''plain.mht'' ''x.html'' ''images'' =
     (empty_filesystem, Failed No_html) \<and>
   read_text env_example empty_filesystem ''headers.mht'' = Some headers_document \<and>
   search_boundary headers_document = Some ''X'' \<and>
   find (contains ''Content-Type: text/html'') (split_markers ''X'' headers_document) =
     Some ''Content-Type: text/html\<newline>'' \<and>
   html_match ''Content-Type: text/html\<newline>'' = None \<and>
   process env_example empty_filesystem ''headers.mht'' ''x.html'' ''images'' =
     (empty_filesystem, Failed No_html_body)"
proof -
  have a: "find (contains ''Content-Type: text/html'') (split_markers ''X'' plain_document) = None"
    by code_simp
  have b: "find (contains ''Content-Type: text/html'') (split_markers ''X'' headers_document) =
     Some ''Content-Type: text/html\<newline>''"
    by code_simp
  have c: "html_match ''Content-Type: text/html\<newline>'' = None"
    by (simp add: html_match_def)
  have 1: "process env_example empty_filesystem ''none.mht'' ''x.html'' ''images'' =
      (empty_filesystem, Failed No_boundary)"
    using process_format_failure [OF example_files(1), of empty_filesystem "''x.html''" "''images''"]
      example_boundaries(1) by blast
  have 2: "process env_example empty_filesystem ''plain.mht'' ''x.html'' ''images'' =
      (empty_filesystem, Failed No_html)"
    using process_format_failure [OF example_files(2), of empty_filesystem "''x.html''" "''images''"]
      example_boundaries(2) split_parts_plain [of env_example plain_document] a by blast
  have 3: "process env_example empty_filesystem ''headers.mht'' ''x.html'' ''images'' =
      (empty_filesystem, Failed No_html_body)"
    using process_format_failure [OF example_files(3), of empty_filesystem "''x.html''" "''images''"]
      example_boundaries(3) split_parts_plain [of env_example headers_document] b c by blast
  from 1 2 3 a b c show ?thesis
    by (simp add: example_files example_boundaries)
qed

text \<open>The content type of a submitted part is the one read in its headers, and a part whose
  headers give a content type that starts with \<open>text/html\<close> is not submitted.\<close>

lemma resource_task_type:
  "resource_task part = Some t \<Longrightarrow> task_type t = content_type_of part"
  by (auto simp: resource_task_def content_type_of_def Let_def split: if_splits option.splits)

lemma resource_task_html:
  "prefix ''text/html'' (content_type_of part) \<Longrightarrow> resource_task part = None"
  by (auto simp: resource_task_def content_type_of_def Let_def split: if_splits option.splits)

text \<open>
  C2 fails on the code where a part that is not an HTML part holds the text
  \<open>Content-Type: text/html\<close>. The part that \<open>process\<close> takes for the HTML part is the first
  one that contains that text anywhere, in its headers or in its body. The only part of
  \<open>quoted.mht\<close> has the content type \<open>text/plain\<close> and names \<open>Content-Type: text/html\<close> in
  its body: no part of the archive has a content type that starts with \<open>text/html\<close>, and
  \<open>process\<close> gives the body of the plain part to the parser, writes the output file and
  returns \<open>True\<close>. Where no part contains the text the conversion fails and writes nothing
  (\<open>process_format_failure\<close>).
\<close>

theorem process_converts_quoted_header:
  "search_boundary quoted_document = Some ''X'' \<and>
   split_markers ''X'' quoted_document =
     [boundary_header,
      ''Content-Type: text/plain\<newline>\<newline>Content-Type: text/html is the type of a page\<newline>'', []] \<and>
   map content_type_of (split_markers ''X'' quoted_document) =
     [''multipart/related'', ''text/plain'', []] \<and>
   html_document env_example quoted_document =
     Inr (split_markers ''X'' quoted_document, quoted_text) \<and>
   snd (process env_example empty_filesystem ''quoted.mht'' ''x.html'' ''images'') = Converted \<and>
   files (fst (process env_example empty_filesystem ''quoted.mht'' ''x.html'' ''images'')) ''x.html''
     = Some (utf8 (to_str env_example quoted_soup)) \<and>
   dirs (fst (process env_example empty_filesystem ''quoted.mht'' ''x.html'' ''images'')) = {}"
  by code_simp

lemma isspace_newline: "isspace (CHR 0x0A)"
  by (simp add: isspace_def)

lemma strip_snoc_newline: "strip (s @ [CHR 0x0A]) = strip s"
proof (cases "\<forall>c \<in> set s. isspace c")
  case True
  then have a: "dropWhile isspace s = []" by simp
  from True have "dropWhile isspace (s @ [CHR 0x0A]) = dropWhile isspace [CHR 0x0A]"
    by (intro dropWhile_append2) simp
  then have "dropWhile isspace (s @ [CHR 0x0A]) = []" by (simp add: isspace_newline)
  with a show ?thesis by (simp only: strip_def)
next
  case False
  then have "dropWhile isspace (s @ [CHR 0x0A]) = dropWhile isspace s @ [CHR 0x0A]"
    by (auto simp: dropWhile_append1)
  then show ?thesis by (simp add: strip_def isspace_newline)
qed

lemma up_to_hyphens_whole:
  "\<not> contains [CHR 0x0A, CHR ''-'', CHR ''-''] s \<Longrightarrow>
     up_to_hyphens s = s \<or> s = up_to_hyphens s @ [CHR 0x0A]"
proof (induction s)
  case Nil
  show ?case by simp
next
  case (Cons c cs)
  from Cons.prems have no: "\<not> prefix [CHR 0x0A, CHR ''-'', CHR ''-''] (c # cs)"
    and rest: "\<not> contains [CHR 0x0A, CHR ''-'', CHR ''-''] cs" by simp_all
  show ?case
  proof (cases "c # cs = [CHR 0x0A]")
    case True
    then show ?thesis by simp
  next
    case False
    with no have "up_to_hyphens (c # cs) = c # up_to_hyphens cs" by simp
    with Cons.IH [OF rest] show ?thesis by auto
  qed
qed

lemma html_match_complete:
  assumes "after_blank_line html_part = Some body"
    and "\<not> contains [CHR 0x0A, CHR ''-'', CHR ''-''] body"
  shows "map_option strip (html_match html_part) = Some (strip body)"
proof -
  from up_to_hyphens_whole [OF assms(2)]
  have "strip (up_to_hyphens body) = strip body"
    by (metis strip_snoc_newline)
  with assms(1) show ?thesis by (simp add: html_match_def)
qed

text \<open>
  C3 fails on the code. The body of the HTML part is cut at the first newline that two
  hyphens follow, whether or not a boundary marker stands there: in \<open>comment.mht\<close>, an
  archive with one HTML part, a comment of the HTML ends at the start of a line, and the
  text given to the parser ends before that line, while the body of the part goes on to
  \<open><p>c</p>\<close>. Where no line of the body starts with two hyphens the body is returned
  whole (\<open>html_match_complete\<close>).
\<close>

theorem html_document_cut_at_hyphens:
  "html_document env_example comment_document =
     Inr (split_markers ''X'' comment_document, ''<p>a</p>\<newline><!-- note'') \<and>
   filter (contains ''Content-Type: text/html'') (split_markers ''X'' comment_document) =
     [''Content-Type: text/html\<newline>\<newline><p>a</p>\<newline><!-- note\<newline>-->\<newline><p>c</p>\<newline>''] \<and>
   map_option strip
     (after_blank_line ''Content-Type: text/html\<newline>\<newline><p>a</p>\<newline><!-- note\<newline>-->\<newline><p>c</p>\<newline>'') =
     Some ''<p>a</p>\<newline><!-- note\<newline>-->\<newline><p>c</p>''"
  by code_simp

lemma node_at_map_node_at:
  "node_at p (map_node_at p f n) = map_option f (node_at p n)"
proof (induction p arbitrary: n)
  case Nil
  show ?case by simp
next
  case (Cons i p)
  then show ?case by (cases n) simp_all
qed

lemma inject_stylesheet_head:
  assumes "css_content \<noteq> []" and "find_tag ''head'' soup = Some head"
    and "node_at head soup = Some (Tag t a cs)"
  shows "\<exists>soup'. inject_stylesheet e css_content soup = Inr soup' \<and>
           node_at head soup' = Some (Tag t a (cs @ [style_tag css_content]))"
  using assms by (simp add: inject_stylesheet_def node_at_map_node_at append_child_def)

lemma inject_stylesheet_no_head:
  assumes "css_content \<noteq> []" and "find_tag ''head'' soup = None"
  shows "inject_stylesheet e css_content soup = Inl AttributeError \<or>
         (\<exists>html. find_tag ''html'' soup = Some html \<and>
            inject_stylesheet e css_content soup =
              Inr (map_node_at html (insert_first (Tag ''head'' [] [])) soup))"
  using assms by (auto simp: inject_stylesheet_def split: option.splits)

lemma nohead_prepare:
  "prepare env_example nohead_document =
     Inr (split_markers ''X'' nohead_document, ''.i-style-1 { color:red }'', nohead_styled)"
  by code_simp

text \<open>
  C9 fails on the code where the document has no head. \<open>nohead.mht\<close> holds an inline style
  and no head element: the style pass returns a stylesheet, \<open>soup.head\<close> is \<open>None\<close>, and the
  value of \<open>soup.html.insert(0, ...)\<close> is not the new head. With an \<open>insert\<close> that returns
  \<open>None\<close> the \<open>.append\<close> raises, \<open>process\<close> fails and writes no output; with an \<open>insert\<close>
  that returns a list the head is inserted and stays empty, and no style element is in the
  tree. Where the document has a head the style element becomes the last child of the
  first head (\<open>inject_stylesheet_head\<close>).
\<close>

theorem stylesheet_lost_without_head:
  "prepare env_example nohead_document =
     Inr (split_markers ''X'' nohead_document, ''.i-style-1 { color:red }'', nohead_styled) \<and>
   find_tag ''head'' nohead_styled = None \<and>
   inject_stylesheet env_example ''.i-style-1 { color:red }'' nohead_styled = Inl AttributeError \<and>
   snd (process env_example empty_filesystem ''nohead.mht'' ''x.html'' ''images'') = Failed Raised \<and>
   files (fst (process env_example empty_filesystem ''nohead.mht'' ''x.html'' ''images'')) ''x.html''
     = None \<and>
   inject_stylesheet (env_example\<lparr>insert_returns_list := True\<rparr>) ''.i-style-1 { color:red }''
     nohead_styled = Inr nohead_inserted \<and>
   find_tag ''style'' nohead_inserted = None"
  by code_simp

lemma run_tasks_length:
  "run_tasks e fs resource_dir ts = (fs', results) \<Longrightarrow> length results = length ts"
proof (induction ts arbitrary: fs fs' results)
  case Nil
  then show ?case by simp
next
  case (Cons t ts)
  then show ?case by (auto split: prod.splits)
qed

lemma save_resource_failure:
  "snd (save_resource e fs None content_type data encoding resource_dir) = None"
  "\<not> may_mkdir e fs resource_dir \<Longrightarrow>
     snd (save_resource e fs location content_type data encoding resource_dir) = None"
  "b64decode e data = None \<Longrightarrow>
     snd (save_resource e fs location content_type data ''base64'' resource_dir) = None"
  "\<forall>fs' path. \<not> may_write e fs' path \<Longrightarrow>
     snd (save_resource e fs location content_type data encoding resource_dir) = None"
  by (auto simp: save_resource_def makedirs_def write_file_def Let_def split: option.splits)

lemma foldl_collect_absent:
  "\<forall>r \<in> set results. \<forall>v. r \<noteq> Some (k, v) \<Longrightarrow>
     foldl (\<lambda>resource_map result.
              case result of
                None \<Rightarrow> resource_map
              | Some (location, file_path) \<Rightarrow> resource_map(location \<mapsto> file_path))
       m results k = m k"
proof (induction results arbitrary: m)
  case Nil
  show ?case by simp
next
  case (Cons r results)
  then show ?case by (cases r) auto
qed

lemma collect_absent:
  "\<forall>r \<in> set results. \<forall>v. r \<noteq> Some (k, v) \<Longrightarrow> collect results k = None"
  unfolding collect_def by (simp add: foldl_collect_absent)

lemma reference_kept:
  assumes "update_references e soup resource_map output_path = Inr soup'"
    and "resource_map location = None"
    and "attrs_at p soup = Some a" and "map_of a k = Some (Str location)"
  shows "\<exists>a'. attrs_at p soup' = Some a' \<and> map_of a' k = Some (Str location)"
proof -
  from update_references_result [OF assms(1)] assms(3)
  have "attrs_at p soup' = Some a \<or>
            (\<exists>t v resource_path.
               name_at p soup = Some t \<and> t \<in> {''img'', ''link'', ''script''} \<and>
               get_attr a (ref_attr t) (Str []) = Str v \<and>
               resource_map v = Some resource_path \<and>
               attrs_at p soup' =
                 Some (AList.update (ref_attr t)
                         (Str (relpath e resource_path (dirname output_path))) a))"
    by blast
  then show ?thesis
  proof
    assume "attrs_at p soup' = Some a"
    with assms(4) show ?thesis by simp
  next
    assume "\<exists>t v resource_path.
               name_at p soup = Some t \<and> t \<in> {''img'', ''link'', ''script''} \<and>
               get_attr a (ref_attr t) (Str []) = Str v \<and>
               resource_map v = Some resource_path \<and>
               attrs_at p soup' =
                 Some (AList.update (ref_attr t)
                         (Str (relpath e resource_path (dirname output_path))) a)"
    then obtain t v resource_path where
      v: "get_attr a (ref_attr t) (Str []) = Str v" "resource_map v = Some resource_path" and
      u: "attrs_at p soup' =
                 Some (AList.update (ref_attr t)
                         (Str (relpath e resource_path (dirname output_path))) a)"
      by blast
    have "k \<noteq> ref_attr t"
    proof
      assume "k = ref_attr t"
      with assms(4) v(1) have "v = location" by (simp add: get_attr_def)
      with v(2) assms(2) show False by simp
    qed
    with u assms(4) show ?thesis by (simp add: update_conv')
  qed
qed

text \<open>
  C6 (as the code has it). A call of \<open>save_resource\<close> that fails returns \<open>None\<close>
  (\<open>save_resource_failure\<close>). Where the extraction of a part fails and no other part with
  the same content location is extracted, \<open>process\<close> goes on with the reference pass, the
  stylesheet and the output, and returns \<open>True\<close> where these three succeed; the content
  location is not a key of the resource map; and every attribute whose value is that
  content location has the same value after the reference pass.
\<close>

theorem resource_failure_not_fatal:
  assumes "read_text e fs mht_path = Some content"
    and "prepare e content = Inr (parts, css_content, soup)"
    and "run_tasks e fs (join (dirname output_path) resource_dir) (resource_tasks parts)
           = (fs1, results)"
    and "i < length results" and "results ! i = None"
    and "task_location (resource_tasks parts ! i) = Some location"
    and "\<forall>j < length results. \<forall>file_path. results ! j \<noteq> Some (location, file_path)"
  shows "process e fs mht_path output_path resource_dir =
           finish e fs1 soup css_content (collect results) output_path \<and>
         collect results location = None \<and>
         (\<forall>soup'. update_references e soup (collect results) output_path = Inr soup' \<longrightarrow>
            (\<forall>p a k. attrs_at p soup = Some a \<and> map_of a k = Some (Str location) \<longrightarrow>
               (\<exists>a'. attrs_at p soup' = Some a' \<and> map_of a' k = Some (Str location)))) \<and>
         (\<forall>soup1 soup2.
            update_references e soup (collect results) output_path = Inr soup1 \<and>
            inject_stylesheet e css_content soup1 = Inr soup2 \<and>
            may_write e fs1 output_path \<longrightarrow>
            process e fs mht_path output_path resource_dir =
              (fs1\<lparr>files := (files fs1)(output_path \<mapsto> utf8 (to_str e soup2))\<rparr>, Converted))"
proof -
  have 1: "process e fs mht_path output_path resource_dir =
           finish e fs1 soup css_content (collect results) output_path"
    using assms(1,2,3) by (simp add: process_def)
  have "\<forall>r \<in> set results. \<forall>v. r \<noteq> Some (location, v)"
    using assms(7) by (auto simp: in_set_conv_nth)
  then have 2: "collect results location = None" by (rule collect_absent)
  have 3: "\<exists>a'. attrs_at p soup' = Some a' \<and> map_of a' k = Some (Str location)"
    if "update_references e soup (collect results) output_path = Inr soup'"
      and "attrs_at p soup = Some a" and "map_of a k = Some (Str location)" for soup' p a k
    using that(1) 2 that(2,3) by (rule reference_kept)
  have 4: "process e fs mht_path output_path resource_dir =
              (fs1\<lparr>files := (files fs1)(output_path \<mapsto> utf8 (to_str e soup2))\<rparr>, Converted)"
    if "update_references e soup (collect results) output_path = Inr soup1"
      and "inject_stylesheet e css_content soup1 = Inr soup2"
      and "may_write e fs1 output_path" for soup1 soup2
    using that by (simp add: 1 finish_def write_file_def)
  from 1 2 3 4 show ?thesis by blast
qed

lemma twice_prepare:
  "prepare env_example twice_document = Inr (split_markers ''X'' twice_document, [], twice_soup)"
  by code_simp

lemma twice_locations:
  "map task_location (resource_tasks (split_markers ''X'' twice_document)) =
     [Some ''a.png'', Some ''a.png'', Some ''b.png'']"
  by code_simp

lemma twice_results:
  "snd (run_tasks env_example empty_filesystem ''images''
          (resource_tasks (split_markers ''X'' twice_document))) =
     [None, Some (''a.png'', ''images/a.png''), None]"
  by code_simp

lemma twice_references:
  "update_references env_example twice_soup
     (collect [None, Some (''a.png'', ''images/a.png''), None]) ''x.html'' = Inr twice_result"
  by code_simp

lemma twice_converted:
  "snd (process env_example empty_filesystem ''twice.mht'' ''x.html'' ''images'') = Converted"
  by code_simp

text \<open>
  The claim C6 as it is written fails where a content location occurs twice: in
  \<open>twice.mht\<close> the extraction of the first part with the location \<open>a.png\<close> fails, that of
  the second one succeeds, and the reference \<open>a.png\<close> is rewritten.
\<close>

theorem failed_resource_rewritten:
  "prepare env_example twice_document = Inr (split_markers ''X'' twice_document, [], twice_soup) \<and>
   map task_location (resource_tasks (split_markers ''X'' twice_document)) =
     [Some ''a.png'', Some ''a.png'', Some ''b.png''] \<and>
   snd (run_tasks env_example empty_filesystem ''images''
          (resource_tasks (split_markers ''X'' twice_document))) =
     [None, Some (''a.png'', ''images/a.png''), None] \<and>
   attrs_at [0, 1, 0] twice_soup = Some [(''src'', Str ''a.png'')] \<and>
   update_references env_example twice_soup
     (collect [None, Some (''a.png'', ''images/a.png''), None]) ''x.html'' = Inr twice_result \<and>
   attrs_at [0, 1, 0] twice_result = Some [(''src'', Str ''images/a.png'')] \<and>
   snd (process env_example empty_filesystem ''twice.mht'' ''x.html'' ''images'') = Converted"
  using twice_prepare twice_locations twice_results twice_references twice_converted
  by (simp add: twice_soup_def twice_result_def attrs_at_def)

theorem resource_failure_not_fatal_witness:
  "snd (run_tasks env_example empty_filesystem ''images''
          (resource_tasks (split_markers ''X'' twice_document))) =
     [None, Some (''a.png'', ''images/a.png''), None] \<and>
   task_location (resource_tasks (split_markers ''X'' twice_document) ! 2) = Some ''b.png'' \<and>
   collect [None, Some (''a.png'', ''images/a.png''), None] ''b.png'' = None \<and>
   attrs_at [0, 1, 1] twice_soup = Some [(''src'', Str ''b.png'')] \<and>
   (\<exists>a'. attrs_at [0, 1, 1] twice_result = Some a' \<and> map_of a' ''src'' = Some (Str ''b.png'')) \<and>
   snd (process env_example empty_filesystem ''twice.mht'' ''x.html'' ''images'') = Converted"
proof -
  let ?tasks = "resource_tasks (split_markers ''X'' twice_document)"
  let ?results = "[None, Some (''a.png'', ''images/a.png''), None]"
  let ?fs1 = "fst (run_tasks env_example empty_filesystem ''images'' ?tasks)"
  have dir: "join (dirname ''x.html'') ''images'' = ''images''"
    by (simp add: join_def dirname_def rfind_def)
  have run: "run_tasks env_example empty_filesystem (join (dirname ''x.html'') ''images'') ?tasks =
      (?fs1, ?results)"
    unfolding dir using twice_results by (metis prod.collapse)
  have i: "(2::nat) < length ?results" and none: "?results ! 2 = None" by simp_all
  have loc: "task_location (?tasks ! 2) = Some ''b.png''" by code_simp
  have other: "\<forall>j < length ?results. \<forall>file_path. ?results ! j \<noteq> Some (''b.png'', file_path)"
    by (auto simp: nth_Cons split: nat.splits)
  have a: "attrs_at [0, 1, 1] twice_soup = Some [(''src'', Str ''b.png'')]"
    by (simp add: twice_soup_def attrs_at_def)
  have k: "map_of [(''src'', Str ''b.png'')] ''src'' = Some (Str ''b.png'')" by simp
  have css: "inject_stylesheet env_example [] twice_result = Inr twice_result"
    by (simp add: inject_stylesheet_def)
  have wr: "may_write env_example ?fs1 ''x.html''" by (simp add: env_example_def)
  note t = resource_failure_not_fatal [OF example_files(5) twice_prepare run i none loc other]
  from t have 1: "collect ?results ''b.png'' = None" by blast
  from t twice_references a k
  have 2: "\<exists>a'. attrs_at [0, 1, 1] twice_result = Some a' \<and> map_of a' ''src'' = Some (Str ''b.png'')"
    by blast
  from t twice_references css wr
  have "process env_example empty_filesystem ''twice.mht'' ''x.html'' ''images'' =
      (?fs1\<lparr>files := (files ?fs1)(''x.html'' \<mapsto> utf8 (to_str env_example twice_result))\<rparr>,
       Converted)"
    by blast
  then have 3: "snd (process env_example empty_filesystem ''twice.mht'' ''x.html'' ''images'') =
      Converted"
    by simp
  from 1 2 3 twice_results loc a show ?thesis by simp
qed

section \<open>The passes on the trees of the parser\<close>

text \<open>On a tree with the values that \<open>html.parser\<close> gives, the style pass and the reference
  pass raise no exception.\<close>

lemma new_style_lookup: "style_map (new_style st k) k \<noteq> None"
  by (simp add: new_style_def Let_def)

lemma style_element_succeeds:
  assumes "style_typed t p"
  shows "\<exists>st1 t1. style_element p (st, t) = Inr (st1, t1) \<and>
           (\<forall>q. q \<noteq> p \<longrightarrow> attrs_at q t1 = attrs_at q t)"
proof (cases "attrs_at p t")
  case None
  then show ?thesis by (simp add: style_element_def)
next
  case (Some a)
  with assms have ty: "\<And>l. map_of a ''style'' \<noteq> Some (StrList l)"
    "\<And>c. map_of a ''class'' \<noteq> Some (Str c)"
    by (simp_all add: style_typed_def)
  obtain s where s: "get_attr a ''style'' (Str []) = Str s"
    using ty(1) by (cases "get_attr a ''style'' (Str [])")
      (auto simp: get_attr_def split: option.splits)
  obtain cl where cl: "get_attr a ''class'' (StrList []) = StrList cl"
    using ty(2) by (cases "get_attr a ''class'' (StrList [])")
      (auto simp: get_attr_def split: option.splits)
  obtain c where c: "style_map (new_style st (strip s)) (strip s) = Some c"
    using new_style_lookup [of st "strip s"] by auto
  show ?thesis
    using Some s cl c by (simp add: style_element_def Let_def attrs_at_set_attrs)
qed

lemma style_loop_succeeds:
  assumes "\<forall>p \<in> set ps. style_typed t p" and "distinct ps"
  shows "\<exists>st' t'. style_loop ps (st, t) = Inr (st', t')"
  using assms
proof (induction ps arbitrary: st t)
  case Nil
  show ?case by simp
next
  case (Cons p ps)
  from Cons.prems(1) have "style_typed t p" by simp
  from style_element_succeeds [OF this, of st] obtain st1 t1 where
    step: "style_element p (st, t) = Inr (st1, t1)" and
    other: "\<And>q. q \<noteq> p \<Longrightarrow> attrs_at q t1 = attrs_at q t"
    by blast
  have "\<forall>q \<in> set ps. style_typed t1 q"
  proof
    fix q assume q: "q \<in> set ps"
    with Cons.prems(2) have "q \<noteq> p" by auto
    then have "attrs_at q t1 = attrs_at q t" by (rule other)
    moreover from q Cons.prems(1) have "style_typed t q" by simp
    ultimately show "style_typed t1 q" by (simp add: style_typed_def)
  qed
  moreover from Cons.prems(2) have "distinct ps" by simp
  ultimately obtain st' t' where "style_loop ps (st1, t1) = Inr (st', t')"
    using Cons.IH by blast
  with step show ?case by simp
qed

lemma process_styles_succeeds:
  assumes "\<forall>p \<in> set (descendants soup). style_typed soup p"
  shows "\<exists>css soup'. process_styles soup = Inr (css, soup')"
proof -
  have "\<forall>p \<in> set (find_all_style soup). style_typed soup p"
    using assms by (simp add: find_all_style_def)
  from style_loop_succeeds [OF this distinct_find_all_style]
  obtain st' t' where "style_loop (find_all_style soup)
      (\<lparr>style_map = Map.empty, css_rules = [], counter = 1\<rparr>, soup) = Inr (st', t')"
    by blast
  then show ?thesis by (simp add: process_styles_def)
qed

lemma update_reference_succeeds:
  assumes "ref_typed soup p"
  shows "\<exists>soup1. update_reference e rm out p soup = Inr soup1"
proof (cases "\<exists>t a cs. node_at p soup = Some (Tag t a cs)")
  case False
  then show ?thesis
    by (auto simp: update_reference_def split: option.splits node.splits)
next
  case True
  then obtain t a cs where n: "node_at p soup = Some (Tag t a cs)" by blast
  then have "attrs_at p soup = Some a" "name_at p soup = Some t" by (simp_all add: node_at_Tag)
  with assms have "\<And>l. map_of a (ref_attr t) \<noteq> Some (StrList l)"
    by (simp add: ref_typed_def)
  then obtain v where "get_attr a (ref_attr t) (Str []) = Str v"
    by (cases "get_attr a (ref_attr t) (Str [])") (auto simp: get_attr_def split: option.splits)
  with n show ?thesis by (simp add: update_reference_def Let_def split: option.splits)
qed

lemma reference_loop_succeeds:
  assumes "\<forall>p \<in> set ps. ref_typed soup p" and "distinct ps"
  shows "\<exists>soup'. reference_loop e rm out ps soup = Inr soup'"
  using assms
proof (induction ps arbitrary: soup)
  case Nil
  show ?case by simp
next
  case (Cons p ps)
  from Cons.prems(1) have "ref_typed soup p" by simp
  from update_reference_succeeds [OF this, of e rm out] obtain soup1 where
    step: "update_reference e rm out p soup = Inr soup1" by blast
  note s = update_reference_result [OF step]
  have "\<forall>q \<in> set ps. ref_typed soup1 q"
  proof
    fix q assume q: "q \<in> set ps"
    with Cons.prems(2) have "q \<noteq> p" by auto
    then have "attrs_at q soup1 = attrs_at q soup" by (rule s(2))
    moreover have "name_at q soup1 = name_at q soup" by (rule s(3))
    moreover from q Cons.prems(1) have "ref_typed soup q" by simp
    ultimately show "ref_typed soup1 q" by (simp add: ref_typed_def)
  qed
  moreover from Cons.prems(2) have "distinct ps" by simp
  ultimately obtain soup' where "reference_loop e rm out ps soup1 = Inr soup'"
    using Cons.IH by blast
  with step show ?case by simp
qed

lemma update_references_succeeds:
  assumes "\<forall>p \<in> set (descendants soup). ref_typed soup p"
  shows "\<exists>soup'. update_references e soup resource_map output_path = Inr soup'"
proof -
  have "\<forall>p \<in> set (find_all_refs soup). ref_typed soup p"
    using assms by (simp add: find_all_refs_def)
  moreover have "distinct (find_all_refs soup)"
    by (simp add: find_all_refs_def distinct_descendants)
  ultimately show ?thesis
    unfolding update_references_def by (rule reference_loop_succeeds)
qed

end
